theory Spec2Isabelle
  imports Main
begin

section \<open>JSON values and the JavaScript objects the merge works on\<close>

text \<open>
  \<^verbatim>\<open>r.json()\<close> hands the merge a parsed JSON document. An object is the list of its
  own members in the order \<^verbatim>\<open>for ... in\<close> and the spread enumerate them; a parsed object
  never has two members of one name. Numbers are opaque to every merge strategy, so
  integers stand for them.

  A member that a merge adds is put at the end of the list. JavaScript enumerates the
  members whose names are array indices before the others, so for such names the place of
  a member in a result is not its place in the enumeration; which members a result has,
  and with which values, does not depend on it.
\<close>

datatype json =
    JNull
  | JBool bool
  | JNum int
  | JStr string
  | JArr "json list"
  | JObj "(string \<times> json) list"

text \<open>
  \<^verbatim>\<open>deepMerge\<close> tests \<^verbatim>\<open>key in result\<close>, reads \<^verbatim>\<open>result[key]\<close> and assigns
  \<^verbatim>\<open>result[key] = ...\<close>. All three follow the prototype chain of \<^verbatim>\<open>result\<close>, so the
  values at run time carry it: \<open>VObj p props\<close> is an ordinary object with prototype \<open>p\<close>
  and own enumerable members \<open>props\<close>; \<open>VObjectPrototype\<close> is \<^verbatim>\<open>Object.prototype\<close> itself
  (no enumerable member of its own); \<open>VFun\<close> is any built-in method found on a prototype;
  an array has \<^verbatim>\<open>Array.prototype\<close> as its prototype.
\<close>

datatype jsval =
    VUndefined
  | VNull
  | VBool bool
  | VNum int
  | VStr string
  | VFun
  | VObjectPrototype
  | VArr "jsval list"
  | VObj jsval "(string \<times> jsval) list"

primrec of_json :: "json \<Rightarrow> jsval" where
  "of_json JNull = VNull"
| "of_json (JBool b) = VBool b"
| "of_json (JNum n) = VNum n"
| "of_json (JStr s) = VStr s"
| "of_json (JArr xs) = VArr (map of_json xs)"
| "of_json (JObj kvs) = VObj VObjectPrototype (map (map_prod id of_json) kvs)"

subsection \<open>Property names of arrays\<close>

definition digit_char :: "nat \<Rightarrow> char" where
  "digit_char d = ''0123456789'' ! d"

function show_nat :: "nat \<Rightarrow> string" where
  "show_nat n = (if n < 10 then [digit_char n] else show_nat (n div 10) @ [digit_char (n mod 10)])"
  by pat_completeness auto
termination
  by (relation "measure id") auto

declare show_nat.simps [simp del]

definition index_keys :: "'a list \<Rightarrow> string list" where
  "index_keys xs = map show_nat [0..<length xs]"

subsection \<open>Members inherited from the built-in prototypes\<close>

definition object_prototype_functions :: "string list" where
  "object_prototype_functions =
     [''constructor'', ''hasOwnProperty'', ''isPrototypeOf'', ''propertyIsEnumerable'',
      ''toLocaleString'', ''toString'', ''valueOf'', ''__defineGetter__'',
      ''__defineSetter__'', ''__lookupGetter__'', ''__lookupSetter__'']"

definition array_prototype_functions :: "string list" where
  "array_prototype_functions =
     [''at'', ''concat'', ''constructor'', ''copyWithin'', ''entries'', ''every'', ''fill'',
      ''filter'', ''find'', ''findIndex'', ''findLast'', ''findLastIndex'', ''flat'',
      ''flatMap'', ''forEach'', ''includes'', ''indexOf'', ''join'', ''keys'',
      ''lastIndexOf'', ''map'', ''pop'', ''push'', ''reduce'', ''reduceRight'', ''reverse'',
      ''shift'', ''slice'', ''some'', ''sort'', ''splice'', ''toLocaleString'',
      ''toReversed'', ''toSorted'', ''toSpliced'', ''toString'', ''unshift'', ''values'',
      ''with'']"

definition in_object_prototype :: "string \<Rightarrow> bool" where
  "in_object_prototype k \<longleftrightarrow> k = ''__proto__'' \<or> k \<in> set object_prototype_functions"

text \<open>
  Reading a member of \<^verbatim>\<open>Object.prototype\<close>: \<^verbatim>\<open>__proto__\<close> is an accessor whose getter
  returns the prototype \<open>rp\<close> of the object the read started from.
\<close>

definition object_prototype_get :: "string \<Rightarrow> jsval \<Rightarrow> jsval" where
  "object_prototype_get k rp =
     (if k = ''__proto__'' then rp
      else if k \<in> set object_prototype_functions then VFun
      else VUndefined)"

text \<open>\<^verbatim>\<open>key in v\<close>: an own member, or a member of anything on the prototype chain.\<close>

fun has_property :: "string \<Rightarrow> jsval \<Rightarrow> bool" where
  "has_property k (VObj p props) = (map_of props k \<noteq> None \<or> has_property k p)"
| "has_property k (VArr xs) =
     (k \<in> set (index_keys xs) \<or> k = ''length'' \<or> k \<in> set array_prototype_functions
      \<or> in_object_prototype k)"
| "has_property k VObjectPrototype = in_object_prototype k"
| "has_property k _ = False"

text \<open>\<^verbatim>\<open>v[key]\<close> where the read started at an object whose prototype is \<open>rp\<close>.\<close>

fun get_property :: "string \<Rightarrow> jsval \<Rightarrow> jsval \<Rightarrow> jsval" where
  "get_property k rp (VObj p props) =
     (case map_of props k of Some x \<Rightarrow> x | None \<Rightarrow> get_property k rp p)"
| "get_property k rp (VArr xs) =
     (case map_of (zip (index_keys xs) xs) k of
        Some x \<Rightarrow> x
      | None \<Rightarrow>
          if k = ''length'' then VNum (int (length xs))
          else if k \<in> set array_prototype_functions then VFun
          else object_prototype_get k rp)"
| "get_property k rp VObjectPrototype = object_prototype_get k rp"
| "get_property k rp _ = VUndefined"

text \<open>
  An assignment to a name that is not an own member walks the chain. It ends at the
  \<^verbatim>\<open>__proto__\<close> setter of \<^verbatim>\<open>Object.prototype\<close> exactly when the name is \<^verbatim>\<open>__proto__\<close>, no
  object on the way has an own member of that name, and the chain does not end in null.
\<close>

fun reaches_proto_setter :: "string \<Rightarrow> jsval \<Rightarrow> bool" where
  "reaches_proto_setter k (VObj p props) = (map_of props k = None \<and> reaches_proto_setter k p)"
| "reaches_proto_setter k (VArr xs) =
     (k \<notin> set (index_keys xs) \<and> k \<noteq> ''length'' \<and> k \<notin> set array_prototype_functions
      \<and> k = ''__proto__'')"
| "reaches_proto_setter k VObjectPrototype = (k = ''__proto__'')"
| "reaches_proto_setter k _ = False"

fun is_object_or_null :: "jsval \<Rightarrow> bool" where
  "is_object_or_null VNull = True"
| "is_object_or_null VFun = True"
| "is_object_or_null VObjectPrototype = True"
| "is_object_or_null (VArr xs) = True"
| "is_object_or_null (VObj p props) = True"
| "is_object_or_null _ = False"

fun define_own :: "string \<Rightarrow> 'v \<Rightarrow> (string \<times> 'v) list \<Rightarrow> (string \<times> 'v) list" where
  "define_own k v [] = [(k, v)]"
| "define_own k v ((k', v') # rest) =
     (if k = k' then (k, v) # rest else (k', v') # define_own k v rest)"

text \<open>
  \<^verbatim>\<open>result[key] = v\<close>. An own member is overwritten in place. Otherwise the setter of
  \<^verbatim>\<open>__proto__\<close>, when the chain reaches it, replaces the prototype of \<^verbatim>\<open>result\<close> if \<open>v\<close> is an
  object or null and does nothing for any other \<open>v\<close>; in every remaining case a new own
  member is created. \<^verbatim>\<open>result\<close> is always the object made by the literal in
  \<^verbatim>\<open>deepMerge\<close>, so the last equation is never used.
\<close>

fun set_property :: "string \<Rightarrow> jsval \<Rightarrow> jsval \<Rightarrow> jsval" where
  "set_property k v (VObj p props) =
     (if map_of props k \<noteq> None then VObj p (define_own k v props)
      else if reaches_proto_setter k p then
        (if is_object_or_null v then VObj v props else VObj p props)
      else VObj p (define_own k v props))"
| "set_property k v other = other"

fun proto_of :: "jsval \<Rightarrow> jsval" where
  "proto_of (VObj p props) = p"
| "proto_of other = VUndefined"

subsection \<open>Object spread\<close>

text \<open>
  What a spread copies from a value: the own enumerable members of an object, the
  elements of an array and the characters of a string under their indices, nothing from
  null, undefined, a boolean or a number.
\<close>

fun own_enumerable :: "jsval \<Rightarrow> (string \<times> jsval) list" where
  "own_enumerable (VObj p props) = props"
| "own_enumerable (VArr xs) = zip (index_keys xs) xs"
| "own_enumerable (VStr s) = zip (index_keys s) (map (\<lambda>c. VStr [c]) s)"
| "own_enumerable other = []"

text \<open>
  \<^verbatim>\<open>{ ...a, ...b }\<close> defines each copied member on the new object, in order; a later
  member of the same name overwrites the earlier one where that one stands. A spread
  defines own members only: it never goes through the prototype of the new object.
\<close>

definition spread :: "(string \<times> 'v) list \<Rightarrow> (string \<times> 'v) list \<Rightarrow> (string \<times> 'v) list" where
  "spread source target = fold (\<lambda>(k, v). define_own k v) source target"

subsection \<open>deepMerge\<close>

text \<open>
  The equations follow the three exits of \<^verbatim>\<open>deepMerge\<close>: both arguments arrays; both
  truthy, of type \<^verbatim>\<open>"object"\<close> and not arrays (\<^verbatim>\<open>{ ...obj1 }\<close> copies the own enumerable
  members into a fresh object); anything else returns \<^verbatim>\<open>obj2\<close>. \<open>mergeKeys\<close> is the
  \<^verbatim>\<open>for (const key in obj2)\<close> loop, \<^verbatim>\<open>result\<close> being its state. The second argument is
  always a part of the parsed second document.
\<close>

fun deepMerge :: "jsval \<Rightarrow> json \<Rightarrow> jsval"
  and mergeKeys :: "jsval \<Rightarrow> (string \<times> json) list \<Rightarrow> jsval" where
  "deepMerge (VArr xs) (JArr ys) = VArr (xs @ map of_json ys)"
| "deepMerge (VObj p props) (JObj kvs) =
     mergeKeys (VObj VObjectPrototype (spread (own_enumerable (VObj p props)) [])) kvs"
| "deepMerge VObjectPrototype (JObj kvs) =
     mergeKeys (VObj VObjectPrototype (spread (own_enumerable VObjectPrototype) [])) kvs"
| "deepMerge obj1 obj2 = of_json obj2"
| "mergeKeys result [] = result"
| "mergeKeys result ((key, v) # rest) =
     mergeKeys
       (if has_property key result
        then set_property key (deepMerge (get_property key (proto_of result) result) v) result
        else set_property key (of_json v) result)
       rest"


section \<open>The bulk route: \<^verbatim>\<open>POST /api/files/bulk\<close>\<close>

subsection \<open>Requests\<close>

text \<open>
  An id is a number (a relational row) or a string (a document id); a template literal
  and \<^verbatim>\<open>String(id)\<close> render it in decimal or as it is.
\<close>

datatype file_id = NumId nat | StrId string

fun show_id :: "file_id \<Rightarrow> string" where
  "show_id (NumId n) = show_nat n"
| "show_id (StrId s) = s"

record file_info =
  fileId :: file_id
  storageType :: string

text \<open>
  An element of the \<^verbatim>\<open>files\<close> array is whatever the body holds. \<open>ItemNull\<close> is a JSON null:
  destructuring it throws. \<open>Item\<close> is an object with its \<^verbatim>\<open>id\<close> and \<^verbatim>\<open>storageType\<close>; any
  \<^verbatim>\<open>storageType\<close> other than \<^verbatim>\<open>"mongodb"\<close> is served by the relational store. Elements of
  other shapes (a number, an object without an id) are left out.
\<close>

datatype item = ItemNull | Item file_info

text \<open>
  \<open>BadJson\<close>: \<^verbatim>\<open>request.json()\<close> throws. Otherwise the body gives \<^verbatim>\<open>action\<close> (\<open>None\<close> when
  absent) and \<^verbatim>\<open>files\<close> (\<open>None\<close> when absent or not an array).
\<close>

datatype request = BadJson | Body "string option" "item list option"

subsection \<open>The two stores, the disk and what is called on them\<close>

datatype store = Mongodb | Postgres

datatype event =
    CallConnect
  | CallFind store file_id
  | CallDelete store file_id
  | CallUnlink string
  | ConsoleError string

text \<open>
  Each store maps an id to the file path recorded with it; \<open>disk\<close> holds the absolute
  paths of the files that exist; \<open>trace\<close> lists every call in the order it was issued.
\<close>

record world =
  mongo :: "file_id \<rightharpoonup> string"
  postgres :: "file_id \<rightharpoonup> string"
  disk :: "string set"
  trace :: "event list"

text \<open>
  What the route cannot decide itself: the working directory and which calls throw, with
  the message of the error (\<open>None\<close>: the call succeeds).
\<close>

record env =
  cwd :: string
  connect_error :: "string option"
  find_error :: "store \<Rightarrow> file_id \<Rightarrow> string option"
  delete_error :: "store \<Rightarrow> file_id \<Rightarrow> string option"
  unlink_error :: "string \<Rightarrow> string option"

definition call :: "event \<Rightarrow> world \<Rightarrow> world" where
  "call e w = w\<lparr>trace := trace w @ [e]\<rparr>"

definition lookup_store :: "store \<Rightarrow> world \<Rightarrow> file_id \<rightharpoonup> string" where
  "lookup_store s w = (case s of Mongodb \<Rightarrow> mongo w | Postgres \<Rightarrow> postgres w)"

definition remove_from_store :: "store \<Rightarrow> file_id \<Rightarrow> world \<Rightarrow> world" where
  "remove_from_store s i w =
     (case s of
        Mongodb \<Rightarrow> w\<lparr>mongo := (mongo w)(i := None)\<rparr>
      | Postgres \<Rightarrow> w\<lparr>postgres := (postgres w)(i := None)\<rparr>)"

text \<open>A call that throws is \<open>Inl\<close> of the error's message.\<close>

definition connectMongoDB :: "env \<Rightarrow> world \<Rightarrow> world \<times> (string + unit)" where
  "connectMongoDB e w =
     (case connect_error e of
        Some m \<Rightarrow> (call CallConnect w, Inl m)
      | None \<Rightarrow> (call CallConnect w, Inr ()))"

text \<open>\<^verbatim>\<open>FileModel.findById(id)\<close> and \<^verbatim>\<open>SELECT file_path FROM files WHERE id = $1\<close>.\<close>

definition find_file :: "env \<Rightarrow> store \<Rightarrow> file_id \<Rightarrow> world \<Rightarrow> world \<times> (string + string option)" where
  "find_file e s i w =
     (case find_error e s i of
        Some m \<Rightarrow> (call (CallFind s i) w, Inl m)
      | None \<Rightarrow> (call (CallFind s i) w, Inr (lookup_store s w i)))"

text \<open>\<^verbatim>\<open>FileModel.findByIdAndDelete(id)\<close> and \<^verbatim>\<open>DELETE FROM files WHERE id = $1\<close>.\<close>

definition delete_file :: "env \<Rightarrow> store \<Rightarrow> file_id \<Rightarrow> world \<Rightarrow> world \<times> (string + unit)" where
  "delete_file e s i w =
     (case delete_error e s i of
        Some m \<Rightarrow> (call (CallDelete s i) w, Inl m)
      | None \<Rightarrow> (remove_from_store s i (call (CallDelete s i) w), Inr ()))"

text \<open>\<^verbatim>\<open>unlink(path)\<close> throws when told to, and when there is no such file.\<close>

definition unlink :: "env \<Rightarrow> string \<Rightarrow> world \<Rightarrow> world \<times> (string + unit)" where
  "unlink e p w =
     (case unlink_error e p of
        Some m \<Rightarrow> (call (CallUnlink p) w, Inl m)
      | None \<Rightarrow>
          if p \<in> disk w then ((call (CallUnlink p) w)\<lparr>disk := disk w - {p}\<rparr>, Inr ())
          else (call (CallUnlink p) w, Inl ''ENOENT: no such file or directory''))"

subsection \<open>\<^verbatim>\<open>path.join\<close> (POSIX)\<close>

fun split_on :: "char \<Rightarrow> string \<Rightarrow> string list" where
  "split_on c [] = [[]]"
| "split_on c (x # xs) =
     (if x = c then [] # split_on c xs
      else (case split_on c xs of [] \<Rightarrow> [[x]] | s # ss \<Rightarrow> (x # s) # ss))"

fun join_with :: "string \<Rightarrow> string list \<Rightarrow> string" where
  "join_with sep [] = []"
| "join_with sep [s] = s"
| "join_with sep (s # t # ss) = s @ sep @ join_with sep (t # ss)"

text \<open>
  One segment of \<^verbatim>\<open>normalizeString\<close>: an empty segment and \<^verbatim>\<open>.\<close> are dropped, \<^verbatim>\<open>..\<close> removes
  the segment before it (when there is one that is not itself \<^verbatim>\<open>..\<close>) and is kept only
  where the path may climb above its start, which an absolute path may not.
\<close>

definition normalize_step :: "bool \<Rightarrow> string list \<Rightarrow> string \<Rightarrow> string list" where
  "normalize_step allowAboveRoot acc seg =
     (if seg = [] \<or> seg = ''.'' then acc
      else if seg = ''..'' then
        (if acc \<noteq> [] \<and> last acc \<noteq> ''..'' then butlast acc
         else if allowAboveRoot then acc @ [''..'']
         else acc)
      else acc @ [seg])"

definition normalize_segments :: "bool \<Rightarrow> string \<Rightarrow> string list" where
  "normalize_segments allowAboveRoot p = foldl (normalize_step allowAboveRoot) [] (split_on CHR ''/'' p)"

definition normalize :: "string \<Rightarrow> string" where
  "normalize p =
     (if p = [] then ''.''
      else
        let isAbsolute = (hd p = CHR ''/'');
            trailingSeparator = (last p = CHR ''/'');
            segs = normalize_segments (\<not> isAbsolute) p
        in if segs = [] then (if isAbsolute then ''/'' else if trailingSeparator then ''./'' else ''.'')
           else (if isAbsolute then ''/'' else []) @ join_with ''/'' segs
                @ (if trailingSeparator then ''/'' else []))"

definition path_join :: "string list \<Rightarrow> string" where
  "path_join args =
     (case filter (\<lambda>a. a \<noteq> []) args of
        [] \<Rightarrow> ''.''
      | a # as \<Rightarrow> normalize (join_with ''/'' (a # as)))"

subsection \<open>One element of \<^verbatim>\<open>files\<close>\<close>

definition store_of :: "string \<Rightarrow> store" where
  "store_of st = (if st = ''mongodb'' then Mongodb else Postgres)"

definition absolutePath :: "env \<Rightarrow> string \<Rightarrow> string" where
  "absolutePath e filePath =
     (let cleanPath = (if filePath \<noteq> [] \<and> hd filePath = CHR ''/'' then tl filePath else filePath)
      in path_join [cwd e, ''public'', cleanPath])"

text \<open>
  \<^verbatim>\<open>// Delete physical file\<close>: nothing for a path that is falsy; else the unlink, whose
  error is caught at once and only written to the console.
\<close>

definition delete_physical :: "env \<Rightarrow> string option \<Rightarrow> world \<Rightarrow> world" where
  "delete_physical e filePath w =
     (case filePath of
        None \<Rightarrow> w
      | Some fp \<Rightarrow>
          if fp = [] then w
          else (case unlink e (absolutePath e fp) w of
                  (w', Inr u) \<Rightarrow> w'
                | (w', Inl m) \<Rightarrow> call (ConsoleError (''Failed to delete physical file: '' @ m)) w'))"

text \<open>
  The lookup and, for a record that was found, the deletion of its metadata. The result
  is the \<^verbatim>\<open>filePath\<close> variable: \<open>None\<close> while it is still null.
\<close>

definition delete_metadata :: "env \<Rightarrow> store \<Rightarrow> file_id \<Rightarrow> world \<Rightarrow> world \<times> (string + string option)" where
  "delete_metadata e s i w =
     (case find_file e s i w of
        (w1, Inl m) \<Rightarrow> (w1, Inl m)
      | (w1, Inr None) \<Rightarrow> (w1, Inr None)
      | (w1, Inr (Some fp)) \<Rightarrow>
          (case delete_file e s i w1 of
             (w2, Inl m) \<Rightarrow> (w2, Inl m)
           | (w2, Inr u) \<Rightarrow> (w2, Inr (Some fp))))"

text \<open>The body of the inner \<^verbatim>\<open>try\<close>, up to but not including \<^verbatim>\<open>results.success++\<close>.\<close>

definition process_file :: "env \<Rightarrow> file_info \<Rightarrow> world \<Rightarrow> world \<times> (string + unit)" where
  "process_file e fi w =
     (if storageType fi = ''mongodb'' then
        (case connectMongoDB e w of
           (w0, Inl m) \<Rightarrow> (w0, Inl m)
         | (w0, Inr u) \<Rightarrow>
             (case delete_metadata e Mongodb (fileId fi) w0 of
                (w1, Inl m) \<Rightarrow> (w1, Inl m)
              | (w1, Inr filePath) \<Rightarrow> (delete_physical e filePath w1, Inr ())))
      else
        (case delete_metadata e Postgres (fileId fi) w of
           (w1, Inl m) \<Rightarrow> (w1, Inl m)
         | (w1, Inr filePath) \<Rightarrow> (delete_physical e filePath w1, Inr ())))"

subsection \<open>The loop and the handler\<close>

record results =
  success :: nat
  failed :: nat
  errors :: "string list"

definition error_entry :: "file_info \<Rightarrow> string \<Rightarrow> string" where
  "error_entry fi m = ''Failed to delete file '' @ show_id (fileId fi) @ '': '' @ m"

text \<open>
  \<^verbatim>\<open>for (const fileInfo of files)\<close>. For a null element the destructuring throws inside
  the \<^verbatim>\<open>try\<close>, and the \<^verbatim>\<open>catch\<close> block, reading \<^verbatim>\<open>fileInfo.id\<close>, throws again: that error
  leaves the loop (\<open>Inl\<close>).
\<close>

fun delete_loop :: "env \<Rightarrow> item list \<Rightarrow> world \<Rightarrow> results \<Rightarrow> world \<times> (string + results)" where
  "delete_loop e [] w r = (w, Inr r)"
| "delete_loop e (ItemNull # rest) w r =
     (w, Inl ''Cannot read properties of null (reading 'id')'')"
| "delete_loop e (Item fi # rest) w r =
     (case process_file e fi w of
        (w', Inr u) \<Rightarrow> delete_loop e rest w' (r\<lparr>success := success r + 1\<rparr>)
      | (w', Inl m) \<Rightarrow>
          delete_loop e rest w'
            (r\<lparr>failed := failed r + 1, errors := errors r @ [error_entry fi m]\<rparr>))"

datatype response =
    Status400 string
  | Status500 string
  | Status200 string results

definition POST :: "env \<Rightarrow> request \<Rightarrow> world \<Rightarrow> world \<times> response" where
  "POST e req w =
     (case req of
        BadJson \<Rightarrow>
          (call (ConsoleError ''Bulk operation error:'') w,
           Status500 ''Failed to perform bulk operation'')
      | Body action None \<Rightarrow> (w, Status400 ''Action and files array are required'')
      | Body action (Some files) \<Rightarrow>
          if action = None \<or> action = Some [] \<or> files = [] then
            (w, Status400 ''Action and files array are required'')
          else if action = Some ''delete'' then
            (case delete_loop e files w \<lparr>success = 0, failed = 0, errors = []\<rparr> of
               (w', Inr r) \<Rightarrow>
                 (w', Status200 (''Deleted '' @ show_nat (success r) @ '' files successfully'') r)
             | (w', Inl m) \<Rightarrow>
                 (call (ConsoleError ''Bulk operation error:'') w',
                  Status500 ''Failed to perform bulk operation''))
          else (w, Status400 ''Invalid action''))"

section \<open>Selecting files in the page and in the merge dialog\<close>

record FileMetadata = file_info +
  extension :: string
  originalName :: string
  filePath :: string

text \<open>\<^verbatim>\<open>handleFileSelect\<close> of the page toggles a file in the selection.\<close>

definition handleFileSelect :: "FileMetadata list \<Rightarrow> FileMetadata \<Rightarrow> FileMetadata list" where
  "handleFileSelect prev file =
     (let isSelected = list_ex (\<lambda>f. fileId f = fileId file \<and> storageType f = storageType file) prev
      in if isSelected
         then filter (\<lambda>f. \<not> (fileId f = fileId file \<and> storageType f = storageType file)) prev
         else prev @ [file])"

text \<open>
  The dialog offers the JSON files; each \<^verbatim>\<open><option>\<close> carries \<^verbatim>\<open>value={file.id}\<close>, which the
  browser hands back as a string, and \<^verbatim>\<open>onChange\<close> looks the file up again with
  \<^verbatim>\<open>jsonFiles.find(f => String(f.id) === e.target.value)\<close>.
\<close>

definition jsonFiles :: "FileMetadata list \<Rightarrow> FileMetadata list" where
  "jsonFiles files = filter (\<lambda>f. extension f = ''json'') files"

definition option_value :: "FileMetadata \<Rightarrow> string" where
  "option_value file = show_id (fileId file)"

type_synonym selection = "FileMetadata option \<times> FileMetadata option"

definition onChangeFirst :: "FileMetadata list \<Rightarrow> selection \<Rightarrow> string \<Rightarrow> selection" where
  "onChangeFirst files selectedFiles v =
     (List.find (\<lambda>f. show_id (fileId f) = v) (jsonFiles files), snd selectedFiles)"

definition onChangeSecond :: "FileMetadata list \<Rightarrow> selection \<Rightarrow> string \<Rightarrow> selection" where
  "onChangeSecond files selectedFiles v =
     (fst selectedFiles, List.find (\<lambda>f. show_id (fileId f) = v) (jsonFiles files))"

text \<open>\<^verbatim>\<open>disabled={file.id === selectedFiles[0]?.id}\<close> on an option of the second list.\<close>

definition option_disabled :: "selection \<Rightarrow> FileMetadata \<Rightarrow> bool" where
  "option_disabled selectedFiles file =
     (case fst selectedFiles of None \<Rightarrow> False | Some s \<Rightarrow> fileId file = fileId s)"

section \<open>The preview of a merge\<close>

datatype MergeStrategy = Shallow | Deep | Override | Combine

text \<open>
  The \<^verbatim>\<open>switch (mergeStrategy)\<close> of \<^verbatim>\<open>generatePreview\<close>, on the two documents once both
  have been fetched and parsed.
\<close>

fun generatePreview :: "MergeStrategy \<Rightarrow> json \<Rightarrow> json \<Rightarrow> jsval" where
  "generatePreview Shallow data1 data2 =
     VObj VObjectPrototype
       (spread (own_enumerable (of_json data2)) (spread (own_enumerable (of_json data1)) []))"
| "generatePreview Deep data1 data2 = deepMerge (of_json data1) data2"
| "generatePreview Override data1 data2 = of_json data2"
| "generatePreview Combine data1 data2 =
     VObj VObjectPrototype [(''file1'', of_json data1), (''file2'', of_json data2)]"

section \<open>Notions used to state the properties\<close>

text \<open>The own member of an object under a name: what \<^verbatim>\<open>JSON.stringify\<close> shows of it.\<close>

fun own_member :: "string \<Rightarrow> jsval \<Rightarrow> jsval option" where
  "own_member k (VObj p props) = map_of props k"
| "own_member k other = None"

fun isArray :: "json \<Rightarrow> bool" where
  "isArray (JArr xs) = True"
| "isArray other = False"

fun isObject :: "json \<Rightarrow> bool" where
  "isObject (JObj kvs) = True"
| "isObject other = False"

text \<open>One pass through the body of the loop of \<^verbatim>\<open>deepMerge\<close>.\<close>

definition merge_step :: "jsval \<Rightarrow> string \<Rightarrow> json \<Rightarrow> jsval" where
  "merge_step result key v =
     (if has_property key result
      then set_property key (deepMerge (get_property key (proto_of result) result) v) result
      else set_property key (of_json v) result)"

text \<open>
  DEEP merge as the specification describes it, on JSON values alone: two arrays are
  concatenated; two objects are merged name by name, the two values under a name that
  both have being merged again; in every other case the second value stands. A name that
  only one of two objects has keeps its value, as in the example of the specification.
\<close>

fun spec_deep_merge :: "json \<Rightarrow> json \<Rightarrow> json"
  and spec_merge_members :: "(string \<times> json) list \<Rightarrow> (string \<times> json) list \<Rightarrow> (string \<times> json) list" where
  "spec_deep_merge (JArr xs) (JArr ys) = JArr (xs @ ys)"
| "spec_deep_merge (JObj o1) (JObj o2) = JObj (spec_merge_members o1 o2)"
| "spec_deep_merge x y = y"
| "spec_merge_members acc [] = acc"
| "spec_merge_members acc ((k, v) # rest) =
     spec_merge_members
       (case map_of acc k of
          Some a \<Rightarrow> define_own k (spec_deep_merge a v) acc
        | None \<Rightarrow> define_own k v acc)
       rest"

text \<open>No object reached through members of objects has a member named \<^verbatim>\<open>__proto__\<close>.\<close>

primrec no_proto_member :: "json \<Rightarrow> bool" where
  "no_proto_member JNull = True"
| "no_proto_member (JBool b) = True"
| "no_proto_member (JNum n) = True"
| "no_proto_member (JStr s) = True"
| "no_proto_member (JArr xs) = True"
| "no_proto_member (JObj kvs) =
     (''__proto__'' \<notin> set (map fst kvs) \<and> list_all snd (map (map_prod id no_proto_member) kvs))"

text \<open>
  The reading of ``every array inside X is replaced by its self-concatenation'': the
  replacement at every array, however deep.
\<close>

primrec duplicate_arrays :: "json \<Rightarrow> json" where
  "duplicate_arrays JNull = JNull"
| "duplicate_arrays (JBool b) = JBool b"
| "duplicate_arrays (JNum n) = JNum n"
| "duplicate_arrays (JStr s) = JStr s"
| "duplicate_arrays (JArr xs) = JArr (map duplicate_arrays xs @ map duplicate_arrays xs)"
| "duplicate_arrays (JObj kvs) = JObj (map (map_prod id duplicate_arrays) kvs)"

text \<open>
  The replacement only at the arrays that are reached through members of objects: an
  array that is an element of another array is left as it is.
\<close>

primrec duplicate_member_arrays :: "json \<Rightarrow> json" where
  "duplicate_member_arrays JNull = JNull"
| "duplicate_member_arrays (JBool b) = JBool b"
| "duplicate_member_arrays (JNum n) = JNum n"
| "duplicate_member_arrays (JStr s) = JStr s"
| "duplicate_member_arrays (JArr xs) = JArr (xs @ xs)"
| "duplicate_member_arrays (JObj kvs) = JObj (map (map_prod id duplicate_member_arrays) kvs)"

text \<open>No object of the document has two members of one name, as in every parsed document.\<close>

primrec distinct_names :: "json \<Rightarrow> bool" where
  "distinct_names JNull = True"
| "distinct_names (JBool b) = True"
| "distinct_names (JNum n) = True"
| "distinct_names (JStr s) = True"
| "distinct_names (JArr xs) = list_all id (map distinct_names xs)"
| "distinct_names (JObj kvs) =
     (distinct (map fst kvs) \<and> list_all snd (map (map_prod id distinct_names) kvs))"

text \<open>
  What the batch is measured against: every record processed in turn, each in the world
  the one before left behind, whatever the outcome of any of them.
\<close>

fun outcomes :: "env \<Rightarrow> file_info list \<Rightarrow> world \<Rightarrow> (file_info \<times> (string + unit)) list" where
  "outcomes e [] w = []"
| "outcomes e (fi # fis) w =
     (fi, snd (process_file e fi w)) # outcomes e fis (fst (process_file e fi w))"

fun after_all :: "env \<Rightarrow> file_info list \<Rightarrow> world \<Rightarrow> world" where
  "after_all e [] w = w"
| "after_all e (fi # fis) w = after_all e fis (fst (process_file e fi w))"

fun failure_entries :: "(file_info \<times> (string + unit)) list \<Rightarrow> string list" where
  "failure_entries [] = []"
| "failure_entries ((fi, Inl m) # outs) = error_entry fi m # failure_entries outs"
| "failure_entries ((fi, Inr u) # outs) = failure_entries outs"

definition tally :: "(file_info \<times> (string + unit)) list \<Rightarrow> results" where
  "tally outs =
     \<lparr>success = length (filter (\<lambda>(fi, out). isl out = False) outs),
      failed = length (filter (\<lambda>(fi, out). isl out) outs),
      errors = failure_entries outs\<rparr>"

text \<open>No call to a store throws.\<close>

definition stores_up :: "env \<Rightarrow> bool" where
  "stores_up e \<longleftrightarrow>
     connect_error e = None
     \<and> (\<forall>s i. find_error e s i = None) \<and> (\<forall>s i. delete_error e s i = None)"

text \<open>
  The blob root is \<^verbatim>\<open><cwd>/public\<close>. A path is inside it when its segments begin with
  those of the root.
\<close>

definition path_segments :: "string \<Rightarrow> string list" where
  "path_segments p = filter (\<lambda>s. s \<noteq> []) (split_on CHR ''/'' p)"

definition blob_root :: "env \<Rightarrow> string" where
  "blob_root e = path_join [cwd e, ''public'']"

definition inside_root :: "env \<Rightarrow> string \<Rightarrow> bool" where
  "inside_root e p \<longleftrightarrow>
     take (length (path_segments (blob_root e))) (path_segments p) = path_segments (blob_root e)"

text \<open>Two tallies added, as the loop adds to the counters it was started with.\<close>

definition add_tally :: "results \<Rightarrow> results \<Rightarrow> results" where
  "add_tally r t = r\<lparr>success := success r + success t, failed := failed r + failed t,
                      errors := errors r @ errors t\<rparr>"

text \<open>The calls that look a record up, before anything is deleted.\<close>

definition lookup_calls :: "file_info \<Rightarrow> event list" where
  "lookup_calls fi =
     (if storageType fi = ''mongodb'' then [CallConnect, CallFind Mongodb (fileId fi)]
      else [CallFind Postgres (fileId fi)])"

text \<open>Whether, and with which message, \<^verbatim>\<open>unlink\<close> of a path throws in a world.\<close>

definition unlink_failure :: "env \<Rightarrow> string \<Rightarrow> world \<Rightarrow> string option" where
  "unlink_failure e p w =
     (case unlink_error e p of
        Some m \<Rightarrow> Some m
      | None \<Rightarrow> if p \<in> disk w then None else Some ''ENOENT: no such file or directory'')"

text \<open>A segment of a normalized path: not empty and without a separator.\<close>

definition good_segment :: "string \<Rightarrow> bool" where
  "good_segment s \<longleftrightarrow> s \<noteq> [] \<and> CHR ''/'' \<notin> set s"

section \<open>Concrete requests and worlds\<close>

text \<open>Every call succeeds; the server runs in \<^verbatim>\<open>/app\<close>.\<close>

definition all_up :: env where
  "all_up = \<lparr>cwd = ''/app'', connect_error = None, find_error = (\<lambda>s i. None),
             delete_error = (\<lambda>s i. None), unlink_error = (\<lambda>p. None)\<rparr>"

text \<open>
  Five records, three relational and two documents, each with its file on disk, and a
  batch that names the five and an id that neither store has.
\<close>

definition five_records :: world where
  "five_records =
     \<lparr>mongo = [StrId ''65a1'' \<mapsto> ''/uploads/d.json'', StrId ''65a2'' \<mapsto> ''/uploads/e.json''],
      postgres = [NumId 1 \<mapsto> ''/uploads/a.json'', NumId 2 \<mapsto> ''/uploads/b.json'',
                  NumId 3 \<mapsto> ''/uploads/c.json''],
      disk = {''/app/public/uploads/a.json'', ''/app/public/uploads/b.json'',
              ''/app/public/uploads/c.json'', ''/app/public/uploads/d.json'',
              ''/app/public/uploads/e.json''},
      trace = []\<rparr>"

definition five_and_one :: "file_info list" where
  "five_and_one =
     [\<lparr>fileId = NumId 1, storageType = ''postgres''\<rparr>,
      \<lparr>fileId = NumId 2, storageType = ''postgres''\<rparr>,
      \<lparr>fileId = NumId 3, storageType = ''postgres''\<rparr>,
      \<lparr>fileId = StrId ''65a1'', storageType = ''mongodb''\<rparr>,
      \<lparr>fileId = StrId ''65a2'', storageType = ''mongodb''\<rparr>,
      \<lparr>fileId = NumId 99, storageType = ''postgres''\<rparr>]"

text \<open>A document whose file is no longer on disk.\<close>

definition blob_missing :: world where
  "blob_missing = \<lparr>mongo = [StrId ''65a1'' \<mapsto> ''/uploads/d.json''], postgres = Map.empty,
                   disk = {}, trace = []\<rparr>"

text \<open>A row whose recorded path climbs out of \<^verbatim>\<open>/srv/app/public\<close>, and the file it reaches.\<close>

definition srv :: env where
  "srv = \<lparr>cwd = ''/srv/app'', connect_error = None, find_error = (\<lambda>s i. None),
          delete_error = (\<lambda>s i. None), unlink_error = (\<lambda>p. None)\<rparr>"

definition crafted :: world where
  "crafted = \<lparr>mongo = Map.empty, postgres = [NumId 1 \<mapsto> ''../../etc/passwd''],
              disk = {''/srv/etc/passwd''}, trace = []\<rparr>"

text \<open>Two JSON files with the same id, one in each store.\<close>

definition in_postgres :: FileMetadata where
  "in_postgres = \<lparr>fileId = NumId 7, storageType = ''postgres'', extension = ''json'',
                  originalName = ''settings.json'', filePath = ''/uploads/settings.json''\<rparr>"

definition in_mongodb :: FileMetadata where
  "in_mongodb = \<lparr>fileId = NumId 7, storageType = ''mongodb'', extension = ''json'',
                 originalName = ''report.json'', filePath = ''/uploads/report.json''\<rparr>"

section \<open>Association lists as members of an object\<close>

lemma map_of_define_own: "map_of (define_own k v al) = (map_of al)(k \<mapsto> v)"
  by (induction al) (auto simp: fun_eq_iff)

lemma keys_define_own: "fst ` set (define_own k v al) = insert k (fst ` set al)"
proof (induction al)
  case Nil
  show ?case by simp
next
  case (Cons kv al)
  obtain k' v' where kv: "kv = (k', v')" by (cases kv)
  show ?case
  proof (cases "k = k'")
    case True
    then show ?thesis by (simp add: kv)
  next
    case False
    with Cons.IH show ?thesis by (simp add: kv insert_commute)
  qed
qed

lemma distinct_define_own:
  "distinct (map fst al) \<Longrightarrow> distinct (map fst (define_own k v al))"
proof (induction al)
  case Nil
  show ?case by simp
next
  case (Cons kv al)
  obtain k' v' where kv: "kv = (k', v')" by (cases kv)
  from Cons show ?case
    by (cases "k = k'") (simp_all add: kv keys_define_own)
qed

lemma define_own_new: "map_of al k = None \<Longrightarrow> define_own k v al = al @ [(k, v)]"
  by (induction al) (auto split: if_splits)

lemma define_own_at:
  "map_of pre k = None \<Longrightarrow> define_own k v (pre @ (k, x) # post) = pre @ (k, v) # post"
  by (induction pre) (auto split: if_splits)

lemma spread_Nil [simp]: "spread [] target = target"
  by (simp add: spread_def)

lemma spread_Cons [simp]: "spread ((k, v) # source) target = spread source (define_own k v target)"
  by (simp add: spread_def)

lemma spread_fresh:
  "distinct (map fst source) \<Longrightarrow> set (map fst source) \<inter> set (map fst target) = {}
   \<Longrightarrow> spread source target = target @ source"
proof (induction source arbitrary: target)
  case Nil
  then show ?case by simp
next
  case (Cons kv source)
  obtain k v where kv: "kv = (k, v)" by (cases kv)
  from Cons.prems have "map_of target k = None"
    by (auto simp: kv map_of_eq_None_iff)
  then have step: "define_own k v target = target @ [(k, v)]"
    by (rule define_own_new)
  from Cons.prems have "set (map fst source) \<inter> set (map fst (target @ [(k, v)])) = {}"
    by (auto simp: kv)
  with Cons.IH [of "target @ [(k, v)]"] Cons.prems show ?case
    by (simp add: kv step)
qed

lemma spread_self: "distinct (map fst source) \<Longrightarrow> spread source [] = source"
  using spread_fresh [of source "[]"] by simp

lemma map_of_spread:
  "distinct (map fst source) \<Longrightarrow> map_of (spread source target) = map_of target ++ map_of source"
proof (induction source arbitrary: target)
  case Nil
  then show ?case by simp
next
  case (Cons kv source)
  obtain k v where kv: "kv = (k, v)" by (cases kv)
  from Cons.prems have notin: "map_of source k = None"
    by (auto simp: kv map_of_eq_None_iff)
  from Cons.prems have "map_of (spread source (define_own k v target)) = map_of (define_own k v target) ++ map_of source"
    by (intro Cons.IH) (simp add: kv)
  then show ?case using notin
    by (auto simp: kv map_of_define_own fun_eq_iff map_add_def split: option.splits)
qed

lemma keys_spread:
  "fst ` set (spread source target) = fst ` set target \<union> fst ` set source"
proof (induction source arbitrary: target)
  case Nil
  show ?case by simp
next
  case (Cons kv source)
  obtain k v where kv: "kv = (k, v)" by (cases kv)
  show ?case
    by (simp add: kv Cons.IH keys_define_own Un_commute insert_commute)
qed

lemma distinct_spread:
  "distinct (map fst target) \<Longrightarrow> distinct (map fst (spread source target))"
  by (induction source arbitrary: target) (auto simp: distinct_define_own)


lemma define_own_members:
  "define_own k (f v) (map (map_prod id f) al) = map (map_prod id f) (define_own k v al)"
  by (induction al) auto

lemma spread_members:
  "spread (map (map_prod id f) source) (map (map_prod id f) target)
   = map (map_prod id f) (spread source target)"
proof (induction source arbitrary: target)
  case Nil
  show ?case by simp
next
  case (Cons kv source)
  obtain k v where kv: "kv = (k, v)" by (cases kv)
  have "spread (map (map_prod id f) (kv # source)) (map (map_prod id f) target)
      = spread (map (map_prod id f) source) (define_own k (f v) (map (map_prod id f) target))"
    by (simp add: kv)
  also have "\<dots> = spread (map (map_prod id f) source) (map (map_prod id f) (define_own k v target))"
    by (simp only: define_own_members)
  also have "\<dots> = map (map_prod id f) (spread source (define_own k v target))"
    by (rule Cons.IH)
  also have "\<dots> = map (map_prod id f) (spread (kv # source) target)"
    by (simp add: kv)
  finally show ?case .
qed

section \<open>The loop of deepMerge\<close>

lemma mergeKeys_Cons: "mergeKeys result ((key, v) # rest) = mergeKeys (merge_step result key v) rest"
  by (simp add: merge_step_def)

lemma set_property_obj: "\<exists>p' props'. set_property k v (VObj p props) = VObj p' props'"
  by simp

lemma set_property_other:
  "k \<noteq> k' \<Longrightarrow> own_member k (set_property k' v (VObj p props)) = map_of props k"
  by (simp add: map_of_define_own)

lemma merge_step_obj: "\<exists>p' props'. merge_step (VObj p props) key v = VObj p' props'"
  unfolding merge_step_def by (simp del: set_property.simps add: set_property_obj)

lemma merge_step_other:
  "k \<noteq> key \<Longrightarrow> own_member k (merge_step (VObj p props) key v) = map_of props k"
  unfolding merge_step_def by (simp del: set_property.simps add: set_property_other)

lemma merge_step_own:
  "map_of props k = Some a \<Longrightarrow>
   merge_step (VObj p props) k v = VObj p (define_own k (deepMerge a v) props)"
  unfolding merge_step_def by simp

lemma mergeKeys_obj: "\<exists>p' props'. mergeKeys (VObj p props) kvs = VObj p' props'"
proof (induction kvs arbitrary: p props)
  case Nil
  show ?case by simp
next
  case (Cons kv kvs)
  obtain key v where kv: "kv = (key, v)" by (cases kv)
  obtain p1 props1 where "merge_step (VObj p props) key v = VObj p1 props1"
    using merge_step_obj by blast
  with Cons.IH [of p1 props1] show ?case
    by (simp only: kv mergeKeys_Cons)
qed

lemma mergeKeys_absent:
  "map_of kvs k = None \<Longrightarrow> own_member k (mergeKeys (VObj p props) kvs) = map_of props k"
proof (induction kvs arbitrary: p props)
  case Nil
  show ?case by simp
next
  case (Cons kv kvs)
  obtain key v where kv: "kv = (key, v)" by (cases kv)
  from Cons.prems have ne: "k \<noteq> key" and rest: "map_of kvs k = None"
    by (auto simp: kv split: if_splits)
  obtain p1 props1 where step: "merge_step (VObj p props) key v = VObj p1 props1"
    using merge_step_obj by blast
  have "map_of props1 k = map_of props k"
    using merge_step_other [OF ne, of p props v] by (simp add: step)
  with Cons.IH [OF rest, of p1 props1] show ?case
    by (simp only: kv mergeKeys_Cons step)
qed

lemma mergeKeys_present:
  "distinct (map fst kvs) \<Longrightarrow> map_of props k = Some a \<Longrightarrow> map_of kvs k = Some b \<Longrightarrow>
   own_member k (mergeKeys (VObj p props) kvs) = Some (deepMerge a b)"
proof (induction kvs arbitrary: p props)
  case Nil
  then show ?case by simp
next
  case (Cons kv kvs)
  obtain key v where kv: "kv = (key, v)" by (cases kv)
  show ?case
  proof (cases "k = key")
    case True
    with Cons.prems have b: "v = b" and rest: "map_of kvs k = None"
      by (auto simp: kv map_of_eq_None_iff)
    have "merge_step (VObj p props) key v = VObj p (define_own k (deepMerge a b) props)"
      using merge_step_own [of props k a p v] Cons.prems(2) by (simp add: True b)
    then show ?thesis
      using mergeKeys_absent [OF rest]
      by (simp only: kv mergeKeys_Cons) (simp add: map_of_define_own)
  next
    case False
    obtain p1 props1 where step: "merge_step (VObj p props) key v = VObj p1 props1"
      using merge_step_obj by blast
    have "map_of props1 k = Some a"
      using merge_step_other [OF False, of p props v] Cons.prems(2) by (simp add: step)
    moreover from Cons.prems False have "distinct (map fst kvs)" "map_of kvs k = Some b"
      by (auto simp: kv)
    ultimately show ?thesis
      using Cons.IH [of props1 p1] by (simp only: kv mergeKeys_Cons step)
  qed
qed


section \<open>DEEP merge\<close>

lemma map_of_members:
  "map_of (map (map_prod id f) kvs) k = map_option f (map_of kvs k)"
  by (induction kvs) auto

lemma distinct_members: "map fst (map (map_prod id f) kvs) = map fst kvs"
  by (induction kvs) auto

lemma deepMerge_arrays: "deepMerge (of_json (JArr xs)) (JArr ys) = of_json (JArr (xs @ ys))"
  by simp

lemma deepMerge_replaces:
  "\<not> (isArray x \<and> isArray y) \<Longrightarrow> \<not> (isObject x \<and> isObject y) \<Longrightarrow>
   deepMerge (of_json x) y = of_json y"
  by (cases x; cases y) simp_all

lemma deepMerge_objects:
  "distinct (map fst o1) \<Longrightarrow>
   deepMerge (of_json (JObj o1)) (JObj o2) =
   mergeKeys (VObj VObjectPrototype (map (map_prod id of_json) o1)) o2"
  by (simp add: spread_self distinct_members)

lemma deepMerge_member:
  assumes "distinct (map fst o1)" "distinct (map fst o2)"
    and "map_of o1 k = Some a" "map_of o2 k = Some b"
  shows "own_member k (deepMerge (of_json (JObj o1)) (JObj o2)) = Some (deepMerge (of_json a) b)"
proof -
  have "map_of (map (map_prod id of_json) o1) k = Some (of_json a)"
    using assms(3) by (simp add: map_of_members)
  from mergeKeys_present [OF assms(2) this assms(4)] show ?thesis
    by (simp only: deepMerge_objects [OF assms(1)])
qed

text \<open>
  C5. DEEP merge works key by key. Two arrays give the elements of the first followed by
  those of the second, in order and with nothing removed. Two values that are not both
  arrays and not both objects give the second. Where both documents are objects, the
  member of the result under a name that both have is the merge of the two values under
  that name: the rule applied again, which is the recursion when both are objects. In
  particular \<^verbatim>\<open>{"a":{"x":1},"arr":[1,2]}\<close> and \<^verbatim>\<open>{"a":{"y":2},"arr":[3]}\<close> merge to
  \<^verbatim>\<open>{"a":{"x":1,"y":2},"arr":[1,2,3]}\<close>.
\<close>

theorem deepMerge_key_by_key:
  "deepMerge (of_json (JArr xs)) (JArr ys) = of_json (JArr (xs @ ys))
   \<and> (\<not> (isArray x \<and> isArray y) \<and> \<not> (isObject x \<and> isObject y) \<longrightarrow>
        deepMerge (of_json x) y = of_json y)
   \<and> (distinct (map fst o1) \<and> distinct (map fst o2) \<and> map_of o1 k = Some a \<and> map_of o2 k = Some b \<longrightarrow>
        own_member k (deepMerge (of_json (JObj o1)) (JObj o2)) = Some (deepMerge (of_json a) b))
   \<and> deepMerge
        (of_json (JObj [(''a'', JObj [(''x'', JNum 1)]), (''arr'', JArr [JNum 1, JNum 2])]))
        (JObj [(''a'', JObj [(''y'', JNum 2)]), (''arr'', JArr [JNum 3])])
      = of_json (JObj [(''a'', JObj [(''x'', JNum 1), (''y'', JNum 2)]),
                       (''arr'', JArr [JNum 1, JNum 2, JNum 3])])"
proof (intro conjI impI)
  show "deepMerge (of_json (JArr xs)) (JArr ys) = of_json (JArr (xs @ ys))"
    by (rule deepMerge_arrays)
next
  assume "\<not> (isArray x \<and> isArray y) \<and> \<not> (isObject x \<and> isObject y)"
  then show "deepMerge (of_json x) y = of_json y"
    by (simp add: deepMerge_replaces)
next
  assume "distinct (map fst o1) \<and> distinct (map fst o2) \<and> map_of o1 k = Some a \<and> map_of o2 k = Some b"
  then show "own_member k (deepMerge (of_json (JObj o1)) (JObj o2)) = Some (deepMerge (of_json a) b)"
    by (intro deepMerge_member) simp_all
next
  show "deepMerge
        (of_json (JObj [(''a'', JObj [(''x'', JNum 1)]), (''arr'', JArr [JNum 1, JNum 2])]))
        (JObj [(''a'', JObj [(''y'', JNum 2)]), (''arr'', JArr [JNum 3])])
      = of_json (JObj [(''a'', JObj [(''x'', JNum 1), (''y'', JNum 2)]),
                       (''arr'', JArr [JNum 1, JNum 2, JNum 3])])"
    by (simp add: in_object_prototype_def object_prototype_functions_def)
qed

theorem deepMerge_key_by_key_witness:
  "own_member ''a''
     (deepMerge (of_json (JObj [(''a'', JObj [(''x'', JNum 1)]), (''n'', JNum 5)]))
                (JObj [(''n'', JStr ''five''), (''a'', JObj [(''y'', JNum 2)])]))
   = Some (deepMerge (of_json (JObj [(''x'', JNum 1)])) (JObj [(''y'', JNum 2)]))
   \<and> deepMerge (of_json (JNum 5)) (JStr ''five'') = VStr ''five''"
  using deepMerge_key_by_key [of "[]" "[]" "JNum 5" "JStr ''five''"
      "[(''a'', JObj [(''x'', JNum 1)]), (''n'', JNum 5)]"
      "[(''n'', JStr ''five''), (''a'', JObj [(''y'', JNum 2)])]"
      "''a''" "JObj [(''x'', JNum 1)]" "JObj [(''y'', JNum 2)]"]
  by simp

subsection \<open>A document merged with itself\<close>

lemma mergeKeys_self:
  assumes "distinct (map fst pre @ map fst post)"
    and "\<And>k v. (k, v) \<in> set post \<Longrightarrow> deepMerge (of_json v) v = of_json (f v)"
  shows "mergeKeys (VObj P (pre @ map (map_prod id of_json) post)) post
         = VObj P (pre @ map (map_prod id (\<lambda>v. of_json (f v))) post)"
  using assms
proof (induction post arbitrary: pre)
  case Nil
  show ?case by simp
next
  case (Cons kv post)
  obtain k v where kv: "kv = (k, v)" by (cases kv)
  let ?rest = "map (map_prod id of_json) post"
  from Cons.prems(1) have fresh: "map_of pre k = None"
    by (auto simp: kv map_of_eq_None_iff)
  then have "map_of (pre @ (k, of_json v) # ?rest) k = Some (of_json v)"
    by (simp add: map_add_def)
  then have "merge_step (VObj P (pre @ (k, of_json v) # ?rest)) k v
      = VObj P (define_own k (deepMerge (of_json v) v) (pre @ (k, of_json v) # ?rest))"
    by (rule merge_step_own)
  also have "\<dots> = VObj P (pre @ (k, of_json (f v)) # ?rest)"
    using Cons.prems(2) [of k v] fresh by (simp add: kv define_own_at)
  finally have step: "merge_step (VObj P (pre @ (k, of_json v) # ?rest)) k v
      = VObj P ((pre @ [(k, of_json (f v))]) @ ?rest)"
    by simp
  have ih: "mergeKeys (VObj P ((pre @ [(k, of_json (f v))]) @ ?rest)) post
      = VObj P ((pre @ [(k, of_json (f v))]) @ map (map_prod id (\<lambda>v. of_json (f v))) post)"
  proof (rule Cons.IH)
    show "distinct (map fst (pre @ [(k, of_json (f v))]) @ map fst post)"
      using Cons.prems(1) by (simp add: kv)
    fix k' v'
    assume "(k', v') \<in> set post"
    then have "(k', v') \<in> set (kv # post)" by simp
    then show "deepMerge (of_json v') v' = of_json (f v')"
      by (rule Cons.prems(2))
  qed
  have "mergeKeys (VObj P (pre @ map (map_prod id of_json) (kv # post))) (kv # post)
      = mergeKeys (merge_step (VObj P (pre @ (k, of_json v) # ?rest)) k v) post"
    unfolding kv by (simp del: mergeKeys.simps add: mergeKeys_Cons)
  also have "\<dots> = mergeKeys (VObj P ((pre @ [(k, of_json (f v))]) @ ?rest)) post"
    by (simp only: step)
  also note ih
  also have "(pre @ [(k, of_json (f v))]) @ map (map_prod id (\<lambda>v. of_json (f v))) post
      = pre @ map (map_prod id (\<lambda>v. of_json (f v))) (kv # post)"
    by (simp add: kv)
  finally show ?case .
qed

lemma deepMerge_self:
  "distinct_names X \<Longrightarrow> deepMerge (of_json X) X = of_json (duplicate_member_arrays X)"
proof (induction X)
  case (JObj kvs)
  have members: "deepMerge (of_json v) v = of_json (duplicate_member_arrays v)"
    if "(k, v) \<in> set kvs" for k v
  proof (rule JObj.IH)
    show "(k, v) \<in> set kvs" by (rule that)
    show "v \<in> Basic_BNFs.snds (k, v)" by simp
    from JObj.prems that show "distinct_names v"
      by (auto simp: list_all_iff)
  qed
  from JObj.prems have d: "distinct (map fst kvs)" by simp
  have "mergeKeys (VObj VObjectPrototype ([] @ map (map_prod id of_json) kvs)) kvs
      = VObj VObjectPrototype ([] @ map (map_prod id (\<lambda>v. of_json (duplicate_member_arrays v))) kvs)"
    by (rule mergeKeys_self) (use d members in simp_all)
  moreover have "deepMerge (of_json (JObj kvs)) (JObj kvs)
      = mergeKeys (VObj VObjectPrototype (map (map_prod id of_json) kvs)) kvs"
    by (rule deepMerge_objects [OF d])
  moreover have "map (map_prod id (\<lambda>v. of_json (duplicate_member_arrays v))) kvs
      = map (map_prod id of_json) (map (map_prod id duplicate_member_arrays) kvs)"
    by (induction kvs) auto
  ultimately show ?case
    by simp
qed simp_all

text \<open>
  C9, as stated: merging \<^verbatim>\<open>[[1]]\<close> with itself gives \<^verbatim>\<open>[[1],[1]]\<close>. The inner array is an
  element of the outer one and is copied as it is, so the result is not the document with
  every array doubled, \<^verbatim>\<open>[[1,1],[1,1]]\<close>.
\<close>

theorem deepMerge_self_counterexample:
  "deepMerge (of_json (JArr [JArr [JNum 1]])) (JArr [JArr [JNum 1]])
   \<noteq> of_json (duplicate_arrays (JArr [JArr [JNum 1]]))"
  by simp

text \<open>
  C9, amended. DEEP merge of a document with itself reproduces the document except that
  every array reached through members of objects only (the document itself when it is an
  array) is replaced by its self-concatenation. The elements of an array are copied
  unchanged: arrays and objects inside an array are not merged.
\<close>

theorem deepMerge_self_member_arrays:
  "distinct_names X \<Longrightarrow> deepMerge (of_json X) X = of_json (duplicate_member_arrays X)"
  by (rule deepMerge_self)

theorem deepMerge_self_member_arrays_witness:
  "distinct_names (JObj [(''n'', JNum 1), (''arr'', JArr [JArr [JNum 1], JNum 2])])
   \<and> deepMerge (of_json (JObj [(''n'', JNum 1), (''arr'', JArr [JArr [JNum 1], JNum 2])]))
        (JObj [(''n'', JNum 1), (''arr'', JArr [JArr [JNum 1], JNum 2])])
     = of_json (JObj [(''n'', JNum 1),
                      (''arr'', JArr [JArr [JNum 1], JNum 2, JArr [JNum 1], JNum 2])])"
  using deepMerge_self_member_arrays
    [of "JObj [(''n'', JNum 1), (''arr'', JArr [JArr [JNum 1], JNum 2])]"]
  by simp

text \<open>
  C10. DEEP merge treats null as a scalar. A pair with null on either side gives the
  second value, and in two objects a name that both have, with null as the value on
  either side, has the second document's value in the result: null is never merged as an
  object.
\<close>

theorem deepMerge_null:
  "deepMerge (of_json JNull) y = of_json y
   \<and> deepMerge (of_json x) JNull = of_json JNull
   \<and> (distinct (map fst o1) \<and> distinct (map fst o2) \<and> map_of o1 k = Some a \<and> map_of o2 k = Some b
        \<and> (a = JNull \<or> b = JNull) \<longrightarrow>
        own_member k (deepMerge (of_json (JObj o1)) (JObj o2)) = Some (of_json b))"
proof (intro conjI impI)
  show "deepMerge (of_json JNull) y = of_json y"
    by (cases y) simp_all
  show "deepMerge (of_json x) JNull = of_json JNull"
    by (cases x) simp_all
  assume h: "distinct (map fst o1) \<and> distinct (map fst o2) \<and> map_of o1 k = Some a
      \<and> map_of o2 k = Some b \<and> (a = JNull \<or> b = JNull)"
  then have "own_member k (deepMerge (of_json (JObj o1)) (JObj o2)) = Some (deepMerge (of_json a) b)"
    by (intro deepMerge_member) simp_all
  moreover from h have "deepMerge (of_json a) b = of_json b"
    by (intro deepMerge_replaces) auto
  ultimately show "own_member k (deepMerge (of_json (JObj o1)) (JObj o2)) = Some (of_json b)"
    by simp
qed

theorem deepMerge_null_witness:
  "own_member ''a'' (deepMerge (of_json (JObj [(''a'', JNull), (''b'', JNum 1)]))
                               (JObj [(''a'', JObj [(''x'', JNum 1)])]))
     = Some (of_json (JObj [(''x'', JNum 1)]))
   \<and> own_member ''a'' (deepMerge (of_json (JObj [(''a'', JObj [(''x'', JNum 1)])]))
                                 (JObj [(''a'', JNull)]))
     = Some VNull"
  using deepMerge_null [of "JNull" "JNull" "[(''a'', JNull), (''b'', JNum 1)]"
      "[(''a'', JObj [(''x'', JNum 1)])]" "''a''" JNull "JObj [(''x'', JNum 1)]"]
    deepMerge_null [of "JNull" "JNull" "[(''a'', JObj [(''x'', JNum 1)])]"
      "[(''a'', JNull)]" "''a''" "JObj [(''x'', JNum 1)]" JNull]
  by simp

subsection \<open>deepMerge and the merge of the specification\<close>

text \<open>
  A member named \<^verbatim>\<open>__proto__\<close> that only the second object has is found by \<^verbatim>\<open>key in result\<close>
  on \<^verbatim>\<open>Object.prototype\<close>, and the assignment goes to the inherited setter: the merged value
  becomes the prototype of the result and no member is added.
\<close>

lemma deepMerge_proto_member:
  "deepMerge (of_json (JObj [(''a'', JNum 1)])) (JObj [(''__proto__'', JObj [(''x'', JNum 1)])])
   = VObj (VObj VObjectPrototype [(''x'', VNum 1)]) [(''a'', VNum 1)]"
  by (simp add: in_object_prototype_def object_prototype_get_def)

lemma merge_step_fresh:
  assumes "map_of props k = None" "k \<noteq> ''__proto__''"
  shows "merge_step (VObj VObjectPrototype props) k v
         = VObj VObjectPrototype (define_own k (of_json v) props)"
proof (cases "in_object_prototype k")
  case True
  with assms(2) have "object_prototype_get k VObjectPrototype = VFun"
    by (simp add: in_object_prototype_def object_prototype_get_def)
  with True assms show ?thesis
    by (simp add: merge_step_def)
next
  case False
  with assms show ?thesis
    by (simp add: merge_step_def)
qed


lemma merge_step_fresh_members:
  assumes "map_of acc k = None" "k \<noteq> ''__proto__''"
  shows "merge_step (VObj VObjectPrototype (map (map_prod id of_json) acc)) k v
         = VObj VObjectPrototype (map (map_prod id of_json) (define_own k v acc))"
proof -
  have "map_of (map (map_prod id of_json) acc) k = None"
    using assms(1) by (simp add: map_of_members)
  from merge_step_fresh [OF this assms(2)] show ?thesis
    by (simp only: define_own_members)
qed

lemma merge_step_own_members:
  assumes "map_of acc k = Some a" "deepMerge (of_json a) v = of_json b"
  shows "merge_step (VObj VObjectPrototype (map (map_prod id of_json) acc)) k v
         = VObj VObjectPrototype (map (map_prod id of_json) (define_own k b acc))"
proof -
  have "map_of (map (map_prod id of_json) acc) k = Some (of_json a)"
    using assms(1) by (simp add: map_of_members)
  from merge_step_own [OF this] show ?thesis
    by (simp only: assms(2) define_own_members)
qed

lemma list_all_members:
  "list_all snd (map (map_prod id P) kvs) \<longleftrightarrow> (\<forall>(k, v) \<in> set kvs. P v)"
  by (induction kvs) auto

lemma map_of_define_own_other: "k' \<noteq> k \<Longrightarrow> map_of (define_own k v al) k' = map_of al k'"
  by (simp add: map_of_define_own)

text \<open>
  Apart from that name, \<^verbatim>\<open>deepMerge\<close> computes the merge of the specification: a name
  found only on a built-in prototype is merged with a function, which gives the second
  value, and is then added as an own member.
\<close>

lemma deepMerge_refines:
  "(distinct_names a \<longrightarrow> distinct_names b \<longrightarrow> no_proto_member b \<longrightarrow>
      deepMerge (of_json a) b = of_json (spec_deep_merge a b))"
  and
  "(distinct (map fst kvs) \<longrightarrow> ''__proto__'' \<notin> set (map fst kvs) \<longrightarrow>
    (\<forall>(k, v) \<in> set kvs. distinct_names v \<and> no_proto_member v) \<longrightarrow>
    (\<forall>k x. k \<in> set (map fst kvs) \<longrightarrow> map_of acc k = Some x \<longrightarrow> distinct_names x) \<longrightarrow>
      mergeKeys (VObj VObjectPrototype (map (map_prod id of_json) acc)) kvs
      = VObj VObjectPrototype (map (map_prod id of_json) (spec_merge_members acc kvs)))"
proof (induction a b and acc kvs rule: spec_deep_merge_spec_merge_members.induct)
  case (2 o1 o2)
  show ?case
  proof (intro impI)
    assume d1: "distinct_names (JObj o1)" and d2: "distinct_names (JObj o2)"
      and np: "no_proto_member (JObj o2)"
    from d1 have dist1: "distinct (map fst o1)" by simp
    have "mergeKeys (VObj VObjectPrototype (map (map_prod id of_json) o1)) o2
        = VObj VObjectPrototype (map (map_prod id of_json) (spec_merge_members o1 o2))"
    proof -
      have "distinct (map fst o2)" using d2 by simp
      moreover have "''__proto__'' \<notin> set (map fst o2)" using np by simp
      moreover have "\<forall>(k, v) \<in> set o2. distinct_names v \<and> no_proto_member v"
        using d2 np by (auto simp: list_all_members)
      moreover have "\<forall>k x. k \<in> set (map fst o2) \<longrightarrow> map_of o1 k = Some x \<longrightarrow> distinct_names x"
        using d1 by (auto simp: list_all_members dest: map_of_SomeD)
      ultimately show ?thesis using "2.IH" by blast
    qed
    then have "deepMerge (of_json (JObj o1)) (JObj o2)
        = VObj VObjectPrototype (map (map_prod id of_json) (spec_merge_members o1 o2))"
      by (simp only: deepMerge_objects [OF dist1])
    also have "\<dots> = of_json (spec_deep_merge (JObj o1) (JObj o2))"
      by simp
    finally show "deepMerge (of_json (JObj o1)) (JObj o2) = of_json (spec_deep_merge (JObj o1) (JObj o2))" .
  qed
next
  case (5 acc k v rest)
  show ?case
  proof (intro impI)
    assume dist: "distinct (map fst ((k, v) # rest))"
      and np: "''__proto__'' \<notin> set (map fst ((k, v) # rest))"
      and vals: "\<forall>(k, v) \<in> set ((k, v) # rest). distinct_names v \<and> no_proto_member v"
      and inv: "\<forall>k' x. k' \<in> set (map fst ((k, v) # rest)) \<longrightarrow> map_of acc k' = Some x \<longrightarrow> distinct_names x"
    let ?acc' = "case map_of acc k of None \<Rightarrow> define_own k v acc
                 | Some a \<Rightarrow> define_own k (spec_deep_merge a v) acc"
    have step: "merge_step (VObj VObjectPrototype (map (map_prod id of_json) acc)) k v
        = VObj VObjectPrototype (map (map_prod id of_json) ?acc')"
    proof (cases "map_of acc k")
      case None
      from np have "k \<noteq> ''__proto__''" by auto
      from merge_step_fresh_members [OF None this] None show ?thesis by simp
    next
      case (Some a)
      have "distinct_names a" using inv Some by simp
      moreover have "distinct_names v" "no_proto_member v" using vals by simp_all
      ultimately have "deepMerge (of_json a) v = of_json (spec_deep_merge a v)"
        using "5.IH"(1) [OF Some] by blast
      from merge_step_own_members [OF Some this] Some show ?thesis by simp
    qed
    have notk: "k \<notin> set (map fst rest)" using dist by simp
    have inv': "\<forall>k' x. k' \<in> set (map fst rest) \<longrightarrow> map_of ?acc' k' = Some x \<longrightarrow> distinct_names x"
    proof (intro allI impI)
      fix k' x
      assume k': "k' \<in> set (map fst rest)" and x: "map_of ?acc' k' = Some x"
      from k' notk have "k' \<noteq> k" by auto
      then have "map_of ?acc' k' = map_of acc k'"
        by (simp add: map_of_define_own_other split: option.splits)
      with x inv k' show "distinct_names x" by simp
    qed
    have "mergeKeys (VObj VObjectPrototype (map (map_prod id of_json) ?acc')) rest
        = VObj VObjectPrototype (map (map_prod id of_json) (spec_merge_members ?acc' rest))"
    proof -
      from dist have d: "distinct (map fst rest)" by simp
      from np have n: "''__proto__'' \<notin> set (map fst rest)" by simp
      from vals have va: "\<forall>(k, v) \<in> set rest. distinct_names v \<and> no_proto_member v" by simp
      from "5.IH"(2) d n va inv' show ?thesis by blast
    qed
    then show "mergeKeys (VObj VObjectPrototype (map (map_prod id of_json) acc)) ((k, v) # rest)
        = VObj VObjectPrototype (map (map_prod id of_json) (spec_merge_members acc ((k, v) # rest)))"
      by (simp only: mergeKeys_Cons step spec_merge_members.simps)
  qed
qed simp_all

section \<open>SHALLOW merge\<close>

lemma shallow_objects:
  "generatePreview Shallow (JObj o1) (JObj o2) = of_json (JObj (spread o2 (spread o1 [])))"
  using spread_members [of of_json o1 "[]"]
    spread_members [of of_json o2 "spread o1 []"]
  by simp

text \<open>
  C6. SHALLOW merge of two objects is the object whose names are those of the first and
  of the second together, the value of the second standing under every name the second
  has and the value of the first under the others. In particular \<^verbatim>\<open>{"a":1,"b":2}\<close> and
  \<^verbatim>\<open>{"b":3,"c":4}\<close> give exactly \<^verbatim>\<open>{"a":1,"b":3,"c":4}\<close>.
\<close>

theorem shallow_merge_objects:
  "(distinct (map fst o1) \<and> distinct (map fst o2) \<longrightarrow>
      generatePreview Shallow (JObj o1) (JObj o2) = of_json (JObj (spread o2 o1))
      \<and> distinct (map fst (spread o2 o1))
      \<and> set (map fst (spread o2 o1)) = set (map fst o1) \<union> set (map fst o2)
      \<and> (\<forall>k. map_of (spread o2 o1) k
               = (case map_of o2 k of Some v \<Rightarrow> Some v | None \<Rightarrow> map_of o1 k)))
   \<and> generatePreview Shallow (JObj [(''a'', JNum 1), (''b'', JNum 2)])
                              (JObj [(''b'', JNum 3), (''c'', JNum 4)])
     = of_json (JObj [(''a'', JNum 1), (''b'', JNum 3), (''c'', JNum 4)])"
proof (intro conjI impI allI)
  assume h: "distinct (map fst o1) \<and> distinct (map fst o2)"
  then show "generatePreview Shallow (JObj o1) (JObj o2) = of_json (JObj (spread o2 o1))"
    by (simp only: shallow_objects spread_self)
  from h show "distinct (map fst (spread o2 o1))"
    by (simp add: distinct_spread)
  show "set (map fst (spread o2 o1)) = set (map fst o1) \<union> set (map fst o2)"
    by (simp add: keys_spread)
  fix k
  from h show "map_of (spread o2 o1) k = (case map_of o2 k of Some v \<Rightarrow> Some v | None \<Rightarrow> map_of o1 k)"
    by (simp add: map_of_spread map_add_def)
next
  show "generatePreview Shallow (JObj [(''a'', JNum 1), (''b'', JNum 2)])
                              (JObj [(''b'', JNum 3), (''c'', JNum 4)])
     = of_json (JObj [(''a'', JNum 1), (''b'', JNum 3), (''c'', JNum 4)])"
    by simp
qed

theorem shallow_merge_objects_witness:
  "generatePreview Shallow (JObj [(''a'', JNum 1), (''b'', JNum 2)])
                           (JObj [(''b'', JNum 3), (''c'', JNum 4)])
     = of_json (JObj (spread [(''b'', JNum 3), (''c'', JNum 4)] [(''a'', JNum 1), (''b'', JNum 2)]))
   \<and> map_of (spread [(''b'', JNum 3), (''c'', JNum 4)] [(''a'', JNum 1), (''b'', JNum 2)]) ''b''
     = Some (JNum 3)"
  using shallow_merge_objects [of "[(''a'', JNum 1), (''b'', JNum 2)]" "[(''b'', JNum 3), (''c'', JNum 4)]"]
  by simp

section \<open>The bulk route\<close>

text \<open>
  C7. A bulk request whose \<^verbatim>\<open>files\<close> array is empty is answered with status 400, whatever
  the action; the stores, the disk and the list of calls are as before, so nothing was
  queried and nothing deleted.
\<close>

theorem bulk_empty_is_400:
  "POST e (Body action (Some [])) w = (w, Status400 ''Action and files array are required'')"
  by (simp add: POST_def)

theorem bulk_empty_is_400_witness:
  "POST \<lparr>cwd = ''/app'', connect_error = None, find_error = (\<lambda>s i. None),
         delete_error = (\<lambda>s i. None), unlink_error = (\<lambda>p. None)\<rparr>
        (Body (Some ''delete'') (Some []))
        \<lparr>mongo = Map.empty, postgres = [NumId 1 \<mapsto> ''/uploads/a.json''],
         disk = {''/app/public/uploads/a.json''}, trace = []\<rparr>
   = (\<lparr>mongo = Map.empty, postgres = [NumId 1 \<mapsto> ''/uploads/a.json''],
       disk = {''/app/public/uploads/a.json''}, trace = []\<rparr>,
      Status400 ''Action and files array are required'')"
  by (rule bulk_empty_is_400)

subsection \<open>What a record leaves behind\<close>

lemma lookup_store_call [simp]: "lookup_store s (call ev w) = lookup_store s w"
  by (simp add: lookup_store_def call_def split: store.splits)

lemma disk_call [simp]: "disk (call ev w) = disk w"
  by (simp add: call_def)

lemma trace_call [simp]: "trace (call ev w) = trace w @ [ev]"
  by (simp add: call_def)

lemma lookup_store_remove:
  "lookup_store s (remove_from_store s' i w) =
     (if s = s' then (lookup_store s w)(i := None) else lookup_store s w)"
  by (simp add: lookup_store_def remove_from_store_def split: store.splits)

lemma disk_remove [simp]: "disk (remove_from_store s i w) = disk w"
  by (simp add: remove_from_store_def split: store.splits)

lemma trace_remove [simp]: "trace (remove_from_store s i w) = trace w"
  by (simp add: remove_from_store_def split: store.splits)

lemma lookup_store_delete_physical [simp]:
  "lookup_store s (delete_physical e fp w) = lookup_store s w"
  by (simp add: delete_physical_def unlink_def lookup_store_def call_def
      split: option.splits store.splits)

lemma delete_metadata_absent_stays:
  "lookup_store s w i = None \<Longrightarrow> lookup_store s (fst (delete_metadata e s' i' w)) i = None"
  by (auto simp: delete_metadata_def find_file_def delete_file_def lookup_store_remove
      split: option.splits)

lemma delete_metadata_up:
  "find_error e s i = None \<Longrightarrow> delete_error e s i = None \<Longrightarrow>
   \<exists>fp. snd (delete_metadata e s i w) = Inr fp
        \<and> lookup_store s (fst (delete_metadata e s i w)) i = None"
  by (simp add: delete_metadata_def find_file_def delete_file_def lookup_store_remove
      split: option.splits)

lemma process_file_absent_stays:
  "lookup_store s w i = None \<Longrightarrow> lookup_store s (fst (process_file e fi w)) i = None"
proof -
  assume a: "lookup_store s w i = None"
  have c: "lookup_store s (call CallConnect w) i = None" using a by simp
  show ?thesis
    using a delete_metadata_absent_stays [OF a, of e Postgres "fileId fi"]
      delete_metadata_absent_stays [OF c, of e Mongodb "fileId fi"]
    by (auto simp: process_file_def connectMongoDB_def split: option.splits prod.splits sum.splits)
qed

lemma process_file_up:
  assumes "stores_up e"
  shows "snd (process_file e fi w) = Inr ()"
    and "lookup_store (store_of (storageType fi)) (fst (process_file e fi w)) (fileId fi) = None"
proof -
  from assms have up: "connect_error e = None" "\<And>s i. find_error e s i = None"
    "\<And>s i. delete_error e s i = None"
    by (simp_all add: stores_up_def)
  obtain fp where pg: "snd (delete_metadata e Postgres (fileId fi) w) = Inr fp"
      "lookup_store Postgres (fst (delete_metadata e Postgres (fileId fi) w)) (fileId fi) = None"
    using delete_metadata_up [of e Postgres "fileId fi" w] up by auto
  obtain fp' where mg: "snd (delete_metadata e Mongodb (fileId fi) (call CallConnect w)) = Inr fp'"
      "lookup_store Mongodb (fst (delete_metadata e Mongodb (fileId fi) (call CallConnect w))) (fileId fi) = None"
    using delete_metadata_up [of e Mongodb "fileId fi" "call CallConnect w"] up by auto
  show "snd (process_file e fi w) = Inr ()"
    using pg(1) mg(1) up(1)
    by (auto simp: process_file_def connectMongoDB_def split: prod.splits sum.splits)
  show "lookup_store (store_of (storageType fi)) (fst (process_file e fi w)) (fileId fi) = None"
    using pg mg up(1)
    by (auto simp: process_file_def connectMongoDB_def store_of_def split: prod.splits sum.splits)
qed

lemma after_all_absent_stays:
  "lookup_store s w i = None \<Longrightarrow> lookup_store s (after_all e fis w) i = None"
  by (induction fis arbitrary: w) (simp_all add: process_file_absent_stays)

lemma after_all_removes:
  "stores_up e \<Longrightarrow> fi \<in> set fis \<Longrightarrow>
   lookup_store (store_of (storageType fi)) (after_all e fis w) (fileId fi) = None"
proof (induction fis arbitrary: w)
  case Nil
  then show ?case by simp
next
  case (Cons x fis)
  show ?case
  proof (cases "fi = x")
    case True
    then show ?thesis
      using process_file_up(2) [OF Cons.prems(1), of x w]
      by (simp add: after_all_absent_stays)
  next
    case False
    with Cons show ?thesis by simp
  qed
qed

lemma outcomes_up:
  "stores_up e \<Longrightarrow> outcomes e fis w = map (\<lambda>fi. (fi, Inr ())) fis"
  by (induction fis arbitrary: w) (simp_all add: process_file_up)

lemma tally_all_ok:
  "tally (map (\<lambda>fi. (fi, Inr ())) fis) = \<lparr>success = length fis, failed = 0, errors = []\<rparr>"
  by (induction fis) (simp_all add: tally_def)

lemma tally_Nil: "tally [] = \<lparr>success = 0, failed = 0, errors = []\<rparr>"
  by (simp add: tally_def)

lemma tally_Cons_ok:
  "tally ((fi, Inr u) # outs) = (tally outs)\<lparr>success := Suc (success (tally outs))\<rparr>"
  by (simp add: tally_def)

lemma tally_Cons_failed:
  "tally ((fi, Inl m) # outs) =
     (tally outs)\<lparr>failed := Suc (failed (tally outs)), errors := error_entry fi m # errors (tally outs)\<rparr>"
  by (simp add: tally_def)

lemma delete_loop_records:
  "delete_loop e (map Item fis) w r =
     (after_all e fis w, Inr (add_tally r (tally (outcomes e fis w))))"
proof (induction fis arbitrary: w r)
  case Nil
  show ?case by (simp add: add_tally_def tally_Nil)
next
  case (Cons fi fis)
  obtain w' out where step: "process_file e fi w = (w', out)"
    by (cases "process_file e fi w")
  show ?case
  proof (cases out)
    case (Inl m)
    then show ?thesis
      by (simp add: step Cons.IH add_tally_def tally_Cons_failed)
  next
    case (Inr u)
    then show ?thesis
      by (simp add: step Cons.IH add_tally_def tally_Cons_ok)
  qed
qed

lemma outcomes_records: "map fst (outcomes e fis w) = fis"
  by (induction fis arbitrary: w) simp_all

lemma tally_total: "success (tally outs) + failed (tally outs) = length outs"
  by (induction outs) (auto simp: tally_def)

lemma tally_errors: "length (errors (tally outs)) = failed (tally outs)"
proof (induction outs)
  case Nil
  show ?case by (simp add: tally_def)
next
  case (Cons x outs)
  obtain fi out where x: "x = (fi, out)" by (cases x)
  from Cons show ?case
    by (cases out) (simp_all add: x tally_Cons_ok tally_Cons_failed)
qed

subsection \<open>The batch\<close>

lemmas route_defs = POST_def process_file_def delete_metadata_def find_file_def delete_file_def
  connectMongoDB_def call_def lookup_store_def remove_from_store_def delete_physical_def
  unlink_def absolutePath_def path_join_def normalize_def normalize_segments_def
  normalize_step_def error_entry_def store_of_def

lemma POST_records:
  "fis \<noteq> [] \<Longrightarrow>
   POST e (Body (Some ''delete'') (Some (map Item fis))) w =
     (after_all e fis w,
      Status200 (''Deleted '' @ show_nat (success (tally (outcomes e fis w))) @ '' files successfully'')
        (tally (outcomes e fis w)))"
  by (simp add: POST_def delete_loop_records add_tally_def)

text \<open>
  C1. A batch of records is processed to the end whatever fails on the way. The response
  is status 200, never an error thrown out of the loop, and its counters are the tally
  of processing every record in turn: each record is processed once, in order; each
  failure adds one to \<^verbatim>\<open>failed\<close> and exactly one entry, \<^verbatim>\<open>Failed to delete file <id>: <message>\<close>
  with the id of the record that failed, to \<^verbatim>\<open>errors\<close>; the two counters add up to the
  number of records.
\<close>

theorem bulk_delete_isolates_failures:
  "fis \<noteq> [] \<Longrightarrow>
   POST e (Body (Some ''delete'') (Some (map Item fis))) w =
     (after_all e fis w,
      Status200 (''Deleted '' @ show_nat (success (tally (outcomes e fis w))) @ '' files successfully'')
        (tally (outcomes e fis w)))
   \<and> map fst (outcomes e fis w) = fis
   \<and> errors (tally (outcomes e fis w)) = failure_entries (outcomes e fis w)
   \<and> (\<forall>fi m. error_entry fi m = ''Failed to delete file '' @ show_id (fileId fi) @ '': '' @ m)
   \<and> length (errors (tally (outcomes e fis w))) = failed (tally (outcomes e fis w))
   \<and> success (tally (outcomes e fis w)) + failed (tally (outcomes e fis w)) = length fis"
proof (intro conjI)
  assume "fis \<noteq> []"
  then show "POST e (Body (Some ''delete'') (Some (map Item fis))) w =
     (after_all e fis w,
      Status200 (''Deleted '' @ show_nat (success (tally (outcomes e fis w))) @ '' files successfully'')
        (tally (outcomes e fis w)))"
    by (rule POST_records)
  show "map fst (outcomes e fis w) = fis"
    by (rule outcomes_records)
  show "errors (tally (outcomes e fis w)) = failure_entries (outcomes e fis w)"
    by (simp add: tally_def)
  show "\<forall>fi m. error_entry fi m = ''Failed to delete file '' @ show_id (fileId fi) @ '': '' @ m"
    by (simp add: error_entry_def)
  show "length (errors (tally (outcomes e fis w))) = failed (tally (outcomes e fis w))"
    by (rule tally_errors)
  have "length (outcomes e fis w) = length fis"
    using outcomes_records [of e fis w] by (metis length_map)
  then show "success (tally (outcomes e fis w)) + failed (tally (outcomes e fis w)) = length fis"
    by (simp add: tally_total)
qed

theorem bulk_delete_isolates_failures_witness:
  "[\<lparr>fileId = NumId 1, storageType = ''postgres''\<rparr>,
    \<lparr>fileId = NumId 2, storageType = ''postgres''\<rparr>,
    \<lparr>fileId = StrId ''ab'', storageType = ''mongodb''\<rparr>] \<noteq> []
   \<and> snd (POST \<lparr>cwd = ''/app'', connect_error = None,
                 find_error = (\<lambda>s i. if i = NumId 2 then Some ''connection refused'' else None),
                 delete_error = (\<lambda>s i. None), unlink_error = (\<lambda>p. None)\<rparr>
          (Body (Some ''delete'')
             (Some (map Item [\<lparr>fileId = NumId 1, storageType = ''postgres''\<rparr>,
                              \<lparr>fileId = NumId 2, storageType = ''postgres''\<rparr>,
                              \<lparr>fileId = StrId ''ab'', storageType = ''mongodb''\<rparr>])))
          \<lparr>mongo = [StrId ''ab'' \<mapsto> ''/uploads/b.json''],
           postgres = [NumId 1 \<mapsto> ''/uploads/a.json'', NumId 2 \<mapsto> ''/uploads/c.json''],
           disk = {''/app/public/uploads/a.json'', ''/app/public/uploads/b.json''},
           trace = []\<rparr>)
     = Status200 ''Deleted 2 files successfully''
         \<lparr>success = 2, failed = 1,
          errors = [''Failed to delete file 2: connection refused'']\<rparr>"
  using bulk_delete_isolates_failures
    [of "[\<lparr>fileId = NumId 1, storageType = ''postgres''\<rparr>,
          \<lparr>fileId = NumId 2, storageType = ''postgres''\<rparr>,
          \<lparr>fileId = StrId ''ab'', storageType = ''mongodb''\<rparr>]"
        "\<lparr>cwd = ''/app'', connect_error = None,
                 find_error = (\<lambda>s i. if i = NumId 2 then Some ''connection refused'' else None),
                 delete_error = (\<lambda>s i. None), unlink_error = (\<lambda>p. None)\<rparr>"
        "\<lparr>mongo = [StrId ''ab'' \<mapsto> ''/uploads/b.json''],
           postgres = [NumId 1 \<mapsto> ''/uploads/a.json'', NumId 2 \<mapsto> ''/uploads/c.json''],
           disk = {''/app/public/uploads/a.json'', ''/app/public/uploads/b.json''},
           trace = []\<rparr>"]
  by (simp add: route_defs tally_def show_nat.simps digit_char_def)

text \<open>
  C2, as stated: of six records, five stored and one in neither store, the route reports
  6 succeeded and 0 failed, not 5 and 1.
\<close>

theorem bulk_delete_missing_counterexample:
  "mongo five_records (NumId 99) = None \<and> postgres five_records (NumId 99) = None
   \<and> snd (POST all_up (Body (Some ''delete'') (Some (map Item five_and_one))) five_records)
     = Status200 ''Deleted 6 files successfully'' \<lparr>success = 6, failed = 0, errors = []\<rparr>"
  by (simp add: route_defs five_and_one_def five_records_def all_up_def show_nat.simps digit_char_def)

text \<open>
  C2, amended. A record that is not found is skipped and counted as succeeded. While no
  call to a store throws, a batch reports every record as succeeded and none as failed
  (five stored records and one that neither store has: 6 and 0), and afterwards none of
  the listed records is in its store.
\<close>

theorem bulk_delete_counts_missing_as_success:
  "stores_up e \<Longrightarrow> fis \<noteq> [] \<Longrightarrow>
   POST e (Body (Some ''delete'') (Some (map Item fis))) w =
     (after_all e fis w,
      Status200 (''Deleted '' @ show_nat (length fis) @ '' files successfully'')
        \<lparr>success = length fis, failed = 0, errors = []\<rparr>)
   \<and> (\<forall>fi \<in> set fis.
         lookup_store (store_of (storageType fi)) (after_all e fis w) (fileId fi) = None)"
proof (intro conjI ballI)
  assume up: "stores_up e" and ne: "fis \<noteq> []"
  have "tally (outcomes e fis w) = \<lparr>success = length fis, failed = 0, errors = []\<rparr>"
    by (simp only: outcomes_up [OF up] tally_all_ok)
  then show "POST e (Body (Some ''delete'') (Some (map Item fis))) w =
     (after_all e fis w,
      Status200 (''Deleted '' @ show_nat (length fis) @ '' files successfully'')
        \<lparr>success = length fis, failed = 0, errors = []\<rparr>)"
    using POST_records [OF ne, of e w] by simp
  fix fi
  assume "fi \<in> set fis"
  with up show "lookup_store (store_of (storageType fi)) (after_all e fis w) (fileId fi) = None"
    by (rule after_all_removes)
qed

theorem bulk_delete_counts_missing_as_success_witness:
  "stores_up all_up \<and> five_and_one \<noteq> []
   \<and> snd (POST all_up (Body (Some ''delete'') (Some (map Item five_and_one))) five_records)
     = Status200 ''Deleted 6 files successfully'' \<lparr>success = 6, failed = 0, errors = []\<rparr>
   \<and> postgres (after_all all_up five_and_one five_records) (NumId 1) = None
   \<and> postgres (after_all all_up five_and_one five_records) (NumId 2) = None
   \<and> postgres (after_all all_up five_and_one five_records) (NumId 3) = None
   \<and> mongo (after_all all_up five_and_one five_records) (StrId ''65a1'') = None
   \<and> mongo (after_all all_up five_and_one five_records) (StrId ''65a2'') = None"
proof -
  have up: "stores_up all_up"
    by (simp add: stores_up_def all_up_def)
  have ne: "five_and_one \<noteq> []"
    by (simp add: five_and_one_def)
  have len: "length five_and_one = 6"
    by (simp add: five_and_one_def)
  have six: "show_nat 6 = ''6''"
    by (simp add: show_nat.simps digit_char_def)
  note t = bulk_delete_counts_missing_as_success [OF up ne, of five_records]
  from t have resp: "snd (POST all_up (Body (Some ''delete'') (Some (map Item five_and_one))) five_records)
     = Status200 ''Deleted 6 files successfully'' \<lparr>success = 6, failed = 0, errors = []\<rparr>"
    by (simp add: len six)
  from t have gone: "\<forall>fi \<in> set five_and_one.
      lookup_store (store_of (storageType fi)) (after_all all_up five_and_one five_records) (fileId fi) = None"
    by simp
  have "postgres (after_all all_up five_and_one five_records) (NumId 1) = None"
    "postgres (after_all all_up five_and_one five_records) (NumId 2) = None"
    "postgres (after_all all_up five_and_one five_records) (NumId 3) = None"
    "mongo (after_all all_up five_and_one five_records) (StrId ''65a1'') = None"
    "mongo (after_all all_up five_and_one five_records) (StrId ''65a2'') = None"
    using gone unfolding five_and_one_def
    by (simp_all add: store_of_def lookup_store_def)
  with up ne resp show ?thesis by simp
qed

subsection \<open>One record: metadata, then the file\<close>

lemma process_file_delete_fails:
  assumes "s = store_of (storageType fi)" "i = fileId fi"
    and "lookup_store s w i = Some fp"
    and "find_error e s i = None" "storageType fi = ''mongodb'' \<longrightarrow> connect_error e = None"
    and "delete_error e s i = Some m"
  shows "process_file e fi w = (w\<lparr>trace := trace w @ lookup_calls fi @ [CallDelete s i]\<rparr>, Inl m)"
  using assms
  by (auto simp: process_file_def connectMongoDB_def delete_metadata_def find_file_def
      delete_file_def store_of_def lookup_calls_def call_def lookup_store_def)

lemma process_file_delete_ok:
  assumes "s = store_of (storageType fi)" "i = fileId fi" "p = absolutePath e fp"
    and "lookup_store s w i = Some fp" "fp \<noteq> []"
    and "find_error e s i = None" "storageType fi = ''mongodb'' \<longrightarrow> connect_error e = None"
    and "delete_error e s i = None"
  shows "snd (process_file e fi w) = Inr ()"
    and "lookup_store s (fst (process_file e fi w)) i = None"
    and "unlink_failure e p w = None \<Longrightarrow>
           disk (fst (process_file e fi w)) = disk w - {p}
           \<and> trace (fst (process_file e fi w))
               = trace w @ lookup_calls fi @ [CallDelete s i, CallUnlink p]"
    and "unlink_failure e p w = Some m \<Longrightarrow>
           disk (fst (process_file e fi w)) = disk w
           \<and> trace (fst (process_file e fi w))
               = trace w @ lookup_calls fi
                 @ [CallDelete s i, CallUnlink p,
                    ConsoleError (''Failed to delete physical file: '' @ m)]"
  using assms
  by (auto simp: process_file_def connectMongoDB_def delete_metadata_def find_file_def
      delete_file_def store_of_def lookup_calls_def call_def lookup_store_def
      remove_from_store_def delete_physical_def unlink_def unlink_failure_def
      split: option.splits if_splits)

text \<open>
  C3. Deleting a record that exists, with a stored path: the metadata is deleted first.
  If that deletion throws, the record fails, nothing else is called and the disk is
  untouched. If it succeeds, the unlink of the file follows; whether the unlink succeeds
  or throws, the record counts as succeeded and stays absent from its store, and an
  unlink that throws is only written to the console.
\<close>

theorem delete_removes_metadata_first:
  assumes "s = store_of (storageType fi)" "i = fileId fi" "p = absolutePath e fp"
    and "lookup_store s w i = Some fp" "fp \<noteq> []"
    and "find_error e s i = None" "storageType fi = ''mongodb'' \<longrightarrow> connect_error e = None"
  shows
    "(\<forall>m. delete_error e s i = Some m \<longrightarrow>
        process_file e fi w
          = (w\<lparr>trace := trace w @ lookup_calls fi @ [CallDelete s i]\<rparr>, Inl m))
     \<and> (delete_error e s i = None \<longrightarrow>
          snd (process_file e fi w) = Inr ()
          \<and> lookup_store s (fst (process_file e fi w)) i = None
          \<and> (unlink_failure e p w = None \<longrightarrow>
                disk (fst (process_file e fi w)) = disk w - {p}
                \<and> trace (fst (process_file e fi w))
                    = trace w @ lookup_calls fi @ [CallDelete s i, CallUnlink p])
          \<and> (\<forall>m. unlink_failure e p w = Some m \<longrightarrow>
                disk (fst (process_file e fi w)) = disk w
                \<and> trace (fst (process_file e fi w))
                    = trace w @ lookup_calls fi
                      @ [CallDelete s i, CallUnlink p,
                         ConsoleError (''Failed to delete physical file: '' @ m)]))"
proof (intro conjI allI impI)
  fix m
  assume "delete_error e s i = Some m"
  then show "process_file e fi w
      = (w\<lparr>trace := trace w @ lookup_calls fi @ [CallDelete s i]\<rparr>, Inl m)"
    by (rule process_file_delete_fails [OF assms(1,2,4,6,7)])
next
  assume ok: "delete_error e s i = None"
  note r = process_file_delete_ok [OF assms ok]
  show "snd (process_file e fi w) = Inr ()" by (rule r(1))
  show "lookup_store s (fst (process_file e fi w)) i = None" by (rule r(2))
  {
    assume "unlink_failure e p w = None"
    from r(3) [OF this]
    show "disk (fst (process_file e fi w)) = disk w - {p}"
      and "trace (fst (process_file e fi w))
            = trace w @ lookup_calls fi @ [CallDelete s i, CallUnlink p]"
      by simp_all
  }
  {
    fix m
    assume "unlink_failure e p w = Some m"
    from r(4) [OF this]
    show "disk (fst (process_file e fi w)) = disk w"
      and "trace (fst (process_file e fi w))
            = trace w @ lookup_calls fi
              @ [CallDelete s i, CallUnlink p,
                 ConsoleError (''Failed to delete physical file: '' @ m)]"
      by simp_all
  }
qed

theorem delete_removes_metadata_first_witness:
  "lookup_store Mongodb blob_missing (StrId ''65a1'') = Some ''/uploads/d.json''
   \<and> unlink_failure all_up ''/app/public/uploads/d.json'' blob_missing
       = Some ''ENOENT: no such file or directory''
   \<and> snd (process_file all_up \<lparr>fileId = StrId ''65a1'', storageType = ''mongodb''\<rparr> blob_missing)
       = Inr ()
   \<and> mongo (fst (process_file all_up \<lparr>fileId = StrId ''65a1'', storageType = ''mongodb''\<rparr> blob_missing))
         (StrId ''65a1'') = None
   \<and> trace (fst (process_file all_up \<lparr>fileId = StrId ''65a1'', storageType = ''mongodb''\<rparr> blob_missing))
       = [CallConnect, CallFind Mongodb (StrId ''65a1''), CallDelete Mongodb (StrId ''65a1''),
          CallUnlink ''/app/public/uploads/d.json'',
          ConsoleError ''Failed to delete physical file: ENOENT: no such file or directory'']"
proof -
  let ?fi = "\<lparr>fileId = StrId ''65a1'', storageType = ''mongodb''\<rparr>"
  have s: "Mongodb = store_of (storageType ?fi)" and i: "StrId ''65a1'' = fileId ?fi"
    by (simp_all add: store_of_def)
  have p: "''/app/public/uploads/d.json'' = absolutePath all_up ''/uploads/d.json''"
    by (simp add: absolutePath_def path_join_def normalize_def normalize_segments_def
        normalize_step_def all_up_def)
  have found: "lookup_store Mongodb blob_missing (StrId ''65a1'') = Some ''/uploads/d.json''"
    by (simp add: lookup_store_def blob_missing_def)
  have ne: "''/uploads/d.json'' \<noteq> []" by simp
  have f: "find_error all_up Mongodb (StrId ''65a1'') = None"
    and c: "storageType ?fi = ''mongodb'' \<longrightarrow> connect_error all_up = None"
    and d: "delete_error all_up Mongodb (StrId ''65a1'') = None"
    by (simp_all add: all_up_def)
  have u: "unlink_failure all_up ''/app/public/uploads/d.json'' blob_missing
       = Some ''ENOENT: no such file or directory''"
    by (simp add: unlink_failure_def all_up_def blob_missing_def)
  from delete_removes_metadata_first [OF s i p found ne f c] d u found show ?thesis
    by (simp add: lookup_store_def lookup_calls_def blob_missing_def)
qed

subsection \<open>The path that is unlinked\<close>

lemma split_on_not_Nil [simp]: "split_on c p \<noteq> []"
  by (induction p) (auto split: list.splits)

lemma split_on_append: "split_on c (a @ c # b) = split_on c a @ split_on c b"
proof (induction a)
  case Nil
  show ?case by simp
next
  case (Cons x a)
  obtain s ss where s: "split_on c a = s # ss"
    using split_on_not_Nil [of c a] by (cases "split_on c a") auto
  with Cons show ?case by simp
qed

lemma split_on_no_sep: "c \<notin> set s \<Longrightarrow> split_on c s = [s]"
  by (induction s) auto

lemma split_on_sep_free: "s \<in> set (split_on c p) \<Longrightarrow> c \<notin> set s"
proof (induction p arbitrary: s)
  case Nil
  then show ?case by simp
next
  case (Cons x p)
  obtain t ts where t: "split_on c p = t # ts"
    using split_on_not_Nil [of c p] by (cases "split_on c p") auto
  from Cons.prems show ?case
    using Cons.IH [of t] Cons.IH [of s]
    by (cases "x = c") (auto simp: t)
qed

lemma split_join:
  "segs \<noteq> [] \<Longrightarrow> \<forall>s \<in> set segs. c \<notin> set s \<Longrightarrow> split_on c (join_with [c] segs) = segs"
proof (induction "[c]" segs rule: join_with.induct)
  case 1
  then show ?case by simp
next
  case (2 s)
  then show ?case by (simp add: split_on_no_sep)
next
  case (3 s t ss)
  then show ?case
    using split_on_append [of c s "join_with [c] (t # ss)"]
    by (simp add: split_on_no_sep)
qed

lemma normalize_step_good:
  "\<forall>s \<in> set acc. good_segment s \<Longrightarrow> CHR ''/'' \<notin> set seg \<Longrightarrow>
   \<forall>s \<in> set (normalize_step b acc seg). good_segment s"
  by (auto simp: normalize_step_def good_segment_def dest: in_set_butlastD)

lemma normalize_fold_good:
  "\<forall>s \<in> set acc. good_segment s \<Longrightarrow> \<forall>s \<in> set segs. CHR ''/'' \<notin> set s \<Longrightarrow>
   \<forall>s \<in> set (foldl (normalize_step b) acc segs). good_segment s"
proof (induction segs arbitrary: acc)
  case Nil
  then show ?case by simp
next
  case (Cons seg segs)
  have "\<forall>s \<in> set (normalize_step b acc seg). good_segment s"
    using Cons.prems by (intro normalize_step_good) simp_all
  then show ?case
    using Cons.prems by (simp add: Cons.IH)
qed

lemma normalize_fold_no_dotdot:
  "''..'' \<notin> set segs \<Longrightarrow>
   foldl (normalize_step b) acc segs = acc @ filter (\<lambda>s. s \<noteq> [] \<and> s \<noteq> ''.'') segs"
  by (induction segs arbitrary: acc) (auto simp: normalize_step_def)

lemma path_segments_absolute:
  assumes "segs \<noteq> []" "\<forall>s \<in> set segs. good_segment s" "t = [] \<or> t = ''/''"
  shows "path_segments (''/'' @ join_with ''/'' segs @ t) = segs"
proof -
  have free: "\<forall>s \<in> set segs. CHR ''/'' \<notin> set s" and ne: "\<forall>s \<in> set segs. s \<noteq> []"
    using assms(2) by (auto simp: good_segment_def)
  have sj: "split_on CHR ''/'' (join_with ''/'' segs) = segs"
    using split_join [OF assms(1) free] by simp
  have keep: "filter (\<lambda>s. s \<noteq> []) segs = segs"
    using ne by (simp add: filter_id_conv)
  from assms(3) show ?thesis
  proof
    assume "t = []"
    then show ?thesis by (simp add: path_segments_def sj keep)
  next
    assume "t = ''/''"
    then have "split_on CHR ''/'' (join_with ''/'' segs @ t) = segs @ [[]]"
      using split_on_append [of "CHR ''/''" "join_with ''/'' segs" "[]"] by (simp add: sj)
    then show ?thesis by (simp add: path_segments_def keep)
  qed
qed

lemma normalize_absolute:
  assumes "segs = normalize_segments False (CHR ''/'' # p)" "segs \<noteq> []"
  shows "path_segments (normalize (CHR ''/'' # p)) = segs"
proof -
  have good: "\<forall>s \<in> set segs. good_segment s"
    unfolding assms(1) normalize_segments_def
    by (rule normalize_fold_good) (auto dest: split_on_sep_free)
  have "normalize (CHR ''/'' # p)
      = ''/'' @ join_with ''/'' segs @ (if last (CHR ''/'' # p) = CHR ''/'' then ''/'' else [])"
    using assms by (simp add: normalize_def Let_def)
  then show ?thesis
    using path_segments_absolute [OF assms(2) good] by simp
qed

text \<open>
  C8, amended. The route checks no path. It unlinks \<^verbatim>\<open>path.join(cwd, "public", p)\<close>, \<open>p\<close>
  being the stored path without one leading \<^verbatim>\<open>/\<close>; whenever the stored path has no \<^verbatim>\<open>..\<close>
  segment, that path is inside the blob root.
\<close>

theorem unlinked_path_inside_root:
  assumes "cwd e \<noteq> []" "hd (cwd e) = CHR ''/''" "''..'' \<notin> set (split_on CHR ''/'' fp)"
  shows "inside_root e (absolutePath e fp)"
proof -
  obtain c where cwd: "cwd e = CHR ''/'' # c"
    using assms(1,2) by (cases "cwd e") auto
  define R0 where "R0 = foldl (normalize_step False) [] (split_on CHR ''/'' (cwd e))"
  define cleanPath where "cleanPath = (if fp \<noteq> [] \<and> hd fp = CHR ''/'' then tl fp else fp)"
  have clean: "''..'' \<notin> set (split_on CHR ''/'' cleanPath)"
  proof (cases "fp \<noteq> [] \<and> hd fp = CHR ''/''")
    case True
    then obtain r where "fp = CHR ''/'' # r" by (cases fp) auto
    with assms(3) show ?thesis by (simp add: cleanPath_def)
  next
    case False
    with assms(3) show ?thesis by (auto simp: cleanPath_def)
  qed
  have root_join: "join_with ''/'' [cwd e, ''public''] = CHR ''/'' # c @ ''/public''"
    by (simp add: cwd)
  have root_split: "split_on CHR ''/'' (cwd e @ ''/public'') = split_on CHR ''/'' (cwd e) @ [''public'']"
    using split_on_append [of "CHR ''/''" "cwd e" "''public''"] by (simp add: split_on_no_sep)
  have root_segs: "normalize_segments False (CHR ''/'' # c @ ''/public'') = R0 @ [''public'']"
    using root_split by (simp add: normalize_segments_def R0_def cwd normalize_step_def)
  have root: "path_segments (blob_root e) = R0 @ [''public'']"
    using normalize_absolute [of "R0 @ [''public'']" "c @ ''/public''"] root_segs
    by (simp add: blob_root_def path_join_def cwd)
  show ?thesis
  proof (cases "cleanPath = []")
    case True
    then have "absolutePath e fp = blob_root e"
      by (simp add: absolutePath_def blob_root_def path_join_def cleanPath_def Let_def cwd)
    then show ?thesis by (simp add: inside_root_def)
  next
    case False
    let ?extra = "filter (\<lambda>s. s \<noteq> [] \<and> s \<noteq> ''.'') (split_on CHR ''/'' cleanPath)"
    have "split_on CHR ''/'' (cwd e @ ''/public/'' @ cleanPath)
        = split_on CHR ''/'' (cwd e @ ''/public'') @ split_on CHR ''/'' cleanPath"
      using split_on_append [of "CHR ''/''" "cwd e @ ''/public''" cleanPath] by simp
    then have "normalize_segments False (CHR ''/'' # c @ ''/public/'' @ cleanPath)
        = foldl (normalize_step False) (R0 @ [''public'']) (split_on CHR ''/'' cleanPath)"
      using root_split root_segs by (simp add: normalize_segments_def cwd)
    then have segs: "normalize_segments False (CHR ''/'' # c @ ''/public/'' @ cleanPath)
        = (R0 @ [''public'']) @ ?extra"
      by (simp only: normalize_fold_no_dotdot [OF clean])
    have "absolutePath e fp = normalize (CHR ''/'' # c @ ''/public/'' @ cleanPath)"
      using False by (simp add: absolutePath_def path_join_def cleanPath_def Let_def cwd)
    then have "path_segments (absolutePath e fp) = (R0 @ [''public'']) @ ?extra"
      using normalize_absolute [of "(R0 @ [''public'']) @ ?extra" "c @ ''/public/'' @ cleanPath"] segs
      by simp
    then show ?thesis
      by (simp add: inside_root_def root)
  qed
qed

text \<open>
  C8, as stated: a stored path \<^verbatim>\<open>../../etc/passwd\<close> resolves to \<^verbatim>\<open>/srv/etc/passwd\<close>, outside the
  root \<^verbatim>\<open>/srv/app/public\<close>; the route does not reject it and unlinks that file.
\<close>

theorem unlink_outside_root_counterexample:
  "blob_root srv = ''/srv/app/public''
   \<and> absolutePath srv ''../../etc/passwd'' = ''/srv/etc/passwd''
   \<and> \<not> inside_root srv ''/srv/etc/passwd''
   \<and> ''/srv/etc/passwd'' \<in> disk crafted
   \<and> POST srv (Body (Some ''delete'') (Some [Item \<lparr>fileId = NumId 1, storageType = ''postgres''\<rparr>])) crafted
     = (\<lparr>mongo = Map.empty, postgres = Map.empty, disk = {},
         trace = [CallFind Postgres (NumId 1), CallDelete Postgres (NumId 1),
                  CallUnlink ''/srv/etc/passwd'']\<rparr>,
        Status200 ''Deleted 1 files successfully'' \<lparr>success = 1, failed = 0, errors = []\<rparr>)"
  by (simp add: route_defs srv_def crafted_def blob_root_def inside_root_def path_segments_def
      show_nat.simps digit_char_def)

theorem unlinked_path_inside_root_witness:
  "cwd srv \<noteq> [] \<and> hd (cwd srv) = CHR ''/''
   \<and> ''..'' \<notin> set (split_on CHR ''/'' ''/uploads/a.json'')
   \<and> absolutePath srv ''/uploads/a.json'' = ''/srv/app/public/uploads/a.json''
   \<and> inside_root srv ''/srv/app/public/uploads/a.json''"
proof -
  have a: "cwd srv \<noteq> []" and b: "hd (cwd srv) = CHR ''/''"
    by (simp_all add: srv_def)
  have c: "''..'' \<notin> set (split_on CHR ''/'' ''/uploads/a.json'')"
    by simp
  have d: "absolutePath srv ''/uploads/a.json'' = ''/srv/app/public/uploads/a.json''"
    by (simp add: absolutePath_def path_join_def normalize_def normalize_segments_def
        normalize_step_def srv_def)
  from unlinked_path_inside_root [OF a b c] a b c d show ?thesis
    by simp
qed

section \<open>Selecting files\<close>

text \<open>
  C4. Two JSON files share the id 7, one in each store. Choosing the document in either
  list of the merge dialog selects the relational row instead, because the option is
  looked up by its id alone; with the row chosen first, the document's option in the
  second list is disabled. The selection of the page, which compares id and store, keeps
  the two apart.
\<close>

theorem merge_dialog_conflates_backends:
  "fileId in_mongodb = fileId in_postgres \<and> storageType in_mongodb \<noteq> storageType in_postgres
   \<and> onChangeFirst [in_postgres, in_mongodb] (None, None) (option_value in_mongodb)
       = (Some in_postgres, None)
   \<and> onChangeSecond [in_postgres, in_mongodb] (None, None) (option_value in_mongodb)
       = (None, Some in_postgres)
   \<and> option_disabled (Some in_postgres, None) in_mongodb
   \<and> handleFileSelect [in_postgres] in_mongodb = [in_postgres, in_mongodb]"
  by (simp add: in_postgres_def in_mongodb_def onChangeFirst_def onChangeSecond_def
      option_value_def option_disabled_def handleFileSelect_def jsonFiles_def
      show_nat.simps digit_char_def)

end
